theory Spec2Isabelle
  imports Main "HOL-Library.AList" "HOL-Library.Sublist"
begin

section \<open>Raw configuration values\<close>

text \<open>
  The normalisation functions of \<^verbatim>\<open>packages/apollo/src/config.ts\<close> take their input
  as \<^verbatim>\<open>any\<close>: whatever a required JavaScript module or the \<^verbatim>\<open>apollo\<close> key of a
  \<^verbatim>\<open>package.json\<close> holds. The model therefore works on untyped values, as the runtime does.
  An object is the list of its own enumerable properties in the order
  \<^verbatim>\<open>Object.entries\<close> lists them. \<open>JBuiltin\<close> stands for a method a primitive or an array
  inherits from its prototype; user data holds no functions. A number is observed only through
  its truthiness, so integers stand for all numbers.
\<close>

datatype jsval =
    JUndefined
  | JNull
  | JBool bool
  | JNum int
  | JString string
  | JArray "jsval list"
  | JObject "(string \<times> jsval) list"
  | JBuiltin string

text \<open>The only exception the normalisers can raise is the runtime's own \<^verbatim>\<open>TypeError\<close>
  (a property read on \<^verbatim>\<open>undefined\<close> or \<^verbatim>\<open>null\<close>, a call of something that is not a
  function, a destructuring of \<^verbatim>\<open>undefined\<close>). A recursion that outgrows the call stack ends
  in the engine's \<^verbatim>\<open>RangeError\<close>. The collaborators of the resolvers may throw errors of
  their own.\<close>

datatype error = TypeError | RangeError | CollaboratorError string

text \<open>JavaScript truthiness: what \<^verbatim>\<open>if (v)\<close>, \<^verbatim>\<open>v ? a : b\<close>, \<^verbatim>\<open>!v\<close> and
  \<^verbatim>\<open>v || w\<close> test.\<close>

fun truthy :: "jsval \<Rightarrow> bool" where
  "truthy JUndefined = False"
| "truthy JNull = False"
| "truthy (JBool b) = b"
| "truthy (JNum n) = (n \<noteq> 0)"
| "truthy (JString s) = (s \<noteq> [])"
| "truthy (JArray xs) = True"
| "truthy (JObject kvs) = True"
| "truthy (JBuiltin f) = True"

text \<open>\<^verbatim>\<open>typeof v === "string"\<close>.\<close>

fun typeof_string :: "jsval \<Rightarrow> bool" where
  "typeof_string (JString s) = True"
| "typeof_string v = False"

text \<open>\<^verbatim>\<open>Array.isArray(v)\<close>.\<close>

fun isArray :: "jsval \<Rightarrow> bool" where
  "isArray (JArray xs) = True"
| "isArray v = False"

text \<open>
  A property read \<^verbatim>\<open>v.k\<close> on a value that is neither \<^verbatim>\<open>undefined\<close> nor \<^verbatim>\<open>null\<close>.
  An object yields its own property or \<^verbatim>\<open>undefined\<close>. Of the names the program reads
  (\<^verbatim>\<open>url\<close>, \<^verbatim>\<open>subscriptions\<close>, \<^verbatim>\<open>endpoint\<close>, \<^verbatim>\<open>engineKey\<close>, \<^verbatim>\<open>schema\<close>,
  \<^verbatim>\<open>includes\<close>, \<^verbatim>\<open>excludes\<close>, \<^verbatim>\<open>services\<close>, \<^verbatim>\<open>clientSchema\<close>, \<^verbatim>\<open>queries\<close>,
  \<^verbatim>\<open>engineEndpoint\<close>) exactly one is inherited from a prototype: strings and arrays both have
  a method \<^verbatim>\<open>includes\<close>. Index properties and \<^verbatim>\<open>length\<close> are never read by name.
\<close>

fun getProp :: "jsval \<Rightarrow> string \<Rightarrow> jsval" where
  "getProp (JObject kvs) k = (case map_of kvs k of Some v \<Rightarrow> v | None \<Rightarrow> JUndefined)"
| "getProp (JString s) k =
     (if k = ''includes'' then JBuiltin ''String.prototype.includes'' else JUndefined)"
| "getProp (JArray xs) k =
     (if k = ''includes'' then JBuiltin ''Array.prototype.includes'' else JUndefined)"
| "getProp v k = JUndefined"

text \<open>The same read where the value may be \<^verbatim>\<open>undefined\<close> or \<^verbatim>\<open>null\<close>: the runtime
  throws.\<close>

fun getPropE :: "jsval \<Rightarrow> string \<Rightarrow> error + jsval" where
  "getPropE JUndefined k = Inl TypeError"
| "getPropE JNull k = Inl TypeError"
| "getPropE v k = Inr (getProp v k)"

text \<open>An assignment \<^verbatim>\<open>o.k = v\<close> on an object: an existing property keeps its place, a
  new one goes last.\<close>

fun setProp :: "jsval \<Rightarrow> string \<Rightarrow> jsval \<Rightarrow> jsval" where
  "setProp (JObject kvs) k v = JObject (AList.update k v kvs)"
| "setProp w k v = w"

text \<open>Decimal rendering of an index, for the keys of strings and arrays.\<close>

function decimal :: "nat \<Rightarrow> string" where
  "decimal n =
     (if n < 10 then [''0123456789'' ! n]
      else decimal (n div 10) @ [''0123456789'' ! (n mod 10)])"
  by pat_completeness auto
termination
  by (relation "measure id") auto

definition indexed :: "'a list \<Rightarrow> (string \<times> 'a) list" where
  "indexed xs = zip (map decimal [0..<length xs]) xs"

text \<open>The own enumerable properties of a value, as \<^verbatim>\<open>Object.entries(v)\<close> and the spread
  \<^verbatim>\<open>{...v}\<close> enumerate them: the properties of an object, the indexed elements of an array,
  the indexed characters of a string, nothing for the other values.\<close>

fun ownEntries :: "jsval \<Rightarrow> (string \<times> jsval) list" where
  "ownEntries (JObject kvs) = kvs"
| "ownEntries (JArray xs) = indexed xs"
| "ownEntries (JString s) = indexed (map (\<lambda>c. JString [c]) s)"
| "ownEntries v = []"

section \<open>Strings\<close>

text \<open>\<^verbatim>\<open>s.replace(pat, rep)\<close> with a string pattern: the first occurrence of \<open>pat\<close> is
  replaced, the rest of \<open>s\<close> is kept. (The replacement \<^verbatim>\<open>"ws"\<close> holds no \<^verbatim>\<open>$\<close>
  pattern.)\<close>

fun string_replace :: "string \<Rightarrow> string \<Rightarrow> string \<Rightarrow> string" where
  "string_replace pat rep [] = (if pat = [] then rep else [])"
| "string_replace pat rep (c # cs) =
     (if prefix pat (c # cs) then rep @ drop (length pat) (c # cs)
      else c # string_replace pat rep cs)"

text \<open>The method call \<^verbatim>\<open>v.replace(pat, rep)\<close> on a truthy value: only a string has the
  method; on anything else the call throws.\<close>

fun call_replace :: "jsval \<Rightarrow> string \<Rightarrow> string \<Rightarrow> error + jsval" where
  "call_replace (JString s) pat rep = Inr (JString (string_replace pat rep s))"
| "call_replace v pat rep = Inl TypeError"

text \<open>Whether \<open>pat\<close> occurs in a string: what \<^verbatim>\<open>s.match(/http/)\<close> tests for the
  pattern \<^verbatim>\<open>http\<close>.\<close>

fun occurs :: "string \<Rightarrow> string \<Rightarrow> bool" where
  "occurs pat [] = (pat = [])"
| "occurs pat (c # cs) = (prefix pat (c # cs) \<or> occurs pat cs)"

section \<open>Normalisation\<close>

subsection \<open>loadEndpointConfig\<close>

text \<open>
  \<^verbatim>\<open>loadEndpointConfig(obj, shouldDefaultURL)\<close>. A string becomes a fresh object
  \<^verbatim>\<open>{url: obj}\<close>; any other truthy value is used as it is (the same object, not a copy);
  a falsy one is replaced by the local default or stays \<^verbatim>\<open>undefined\<close>. The assignment of
  \<^verbatim>\<open>subscriptions\<close> then writes into \<^verbatim>\<open>preSubscriptions\<close>, which in the second case is
  the caller's object. The function therefore returns a pair: the value the source returns, and
  the argument as the caller finds it after the call.
\<close>

definition loadEndpointConfig :: "jsval \<Rightarrow> bool \<Rightarrow> error + (jsval \<times> jsval)" where
  "loadEndpointConfig obj shouldDefaultURL =
     (let preSubscriptions =
            (if typeof_string obj then JObject [(''url'', obj)]
             else if truthy obj then obj
             else if shouldDefaultURL
               then JObject [(''url'', JString ''http://localhost:4000/graphql'')]
             else JUndefined)
      in if truthy preSubscriptions
            \<and> \<not> truthy (getProp preSubscriptions ''subscriptions'')
            \<and> truthy (getProp preSubscriptions ''url'')
         then (case call_replace (getProp preSubscriptions ''url'') ''http'' ''ws'' of
                 Inl e \<Rightarrow> Inl e
               | Inr ws \<Rightarrow>
                   (let assigned = setProp preSubscriptions ''subscriptions'' ws
                    in Inr (assigned,
                            if \<not> typeof_string obj \<and> truthy obj then assigned else obj)))
         else Inr (preSubscriptions, obj))"

subsection \<open>loadSchemaConfig\<close>

text \<open>What the normalisers read from their surroundings: the environment variable
  \<^verbatim>\<open>ENGINE_API_KEY\<close> (absent, or a string, which may be empty), the file system's
  \<^verbatim>\<open>existsSync\<close>, and \<^verbatim>\<open>basename\<close> of Node's path module.\<close>

record host =
  ENGINE_API_KEY :: "string option"
  existsSync :: "string \<Rightarrow> bool"
  basename :: "string \<Rightarrow> string"

text \<open>\<^verbatim>\<open>process.env.ENGINE_API_KEY\<close> as a value.\<close>

definition process_env_ENGINE_API_KEY :: "host \<Rightarrow> jsval" where
  "process_env_ENGINE_API_KEY h =
     (case ENGINE_API_KEY h of None \<Rightarrow> JUndefined | Some k \<Rightarrow> JString k)"

text \<open>\<^verbatim>\<open>a || b\<close>.\<close>

definition js_or :: "jsval \<Rightarrow> jsval \<Rightarrow> jsval" where
  "js_or a b = (if truthy a then a else b)"

text \<open>Exceptions propagate: the rest of a function runs only on a value.\<close>

definition bindE :: "error + 'a \<Rightarrow> ('a \<Rightarrow> error + 'b) \<Rightarrow> error + 'b" where
  "bindE m f = (case m of Inl e \<Rightarrow> Inl e | Inr x \<Rightarrow> f x)"

text \<open>
  \<^verbatim>\<open>loadSchemaConfig(obj, defaultEndpoint)\<close> builds a new object: the spread of \<open>obj\<close>,
  then \<^verbatim>\<open>endpoint\<close> and \<^verbatim>\<open>engineKey\<close>. The call of \<open>loadEndpointConfig\<close> is handed
  \<^verbatim>\<open>obj.endpoint\<close> itself, so what that call writes into it shows in \<open>obj\<close>: the second
  component is \<open>obj\<close> as the caller finds it afterwards.
\<close>

definition loadSchemaConfig :: "host \<Rightarrow> jsval \<Rightarrow> bool \<Rightarrow> error + (jsval \<times> jsval)" where
  "loadSchemaConfig h obj defaultEndpoint =
     bindE (getPropE obj ''endpoint'') (\<lambda>raw_endpoint.
     bindE (loadEndpointConfig raw_endpoint
              (\<not> truthy (getProp obj ''engineKey'') \<and> defaultEndpoint)) (\<lambda>(loaded, raw_endpoint').
       Inr (setProp
              (setProp (JObject (ownEntries obj)) ''endpoint'' loaded)
              ''engineKey'' (js_or (process_env_ENGINE_API_KEY h) (getProp obj ''engineKey'')),
            if raw_endpoint' = raw_endpoint then obj
            else setProp obj ''endpoint'' raw_endpoint')))"

subsection \<open>loadDocumentSet\<close>

definition loadDocumentSet :: "jsval \<Rightarrow> error + jsval" where
  "loadDocumentSet obj =
     bindE (getPropE obj ''schema'') (\<lambda>sch.
       Inr (JObject
         [(''schema'', sch),
          (''includes'',
             if typeof_string (getProp obj ''includes'') then JArray [getProp obj ''includes'']
             else if truthy (getProp obj ''includes'') then getProp obj ''includes''
             else JArray [JString ''**'']),
          (''excludes'',
             if typeof_string (getProp obj ''excludes'') then JArray [getProp obj ''excludes'']
             else if truthy (getProp obj ''excludes'') then getProp obj ''excludes''
             else JArray [JString ''node_modules/**''])]))"

subsection \<open>getSchemasFromServices\<close>

text \<open>\<^verbatim>\<open>isUrl(maybeUrl)\<close> is \<^verbatim>\<open>!!maybeUrl.match(/http/)\<close>: only a string has
  \<^verbatim>\<open>match\<close>.\<close>

fun isUrl :: "jsval \<Rightarrow> error + bool" where
  "isUrl (JString s) = Inr (occurs ''http'' s)"
| "isUrl v = Inl TypeError"

text \<open>\<^verbatim>\<open>isFile(maybeFile)\<close> is \<^verbatim>\<open>!isUrl(maybeFile) && fs.existsSync(maybeFile)\<close>.\<close>

definition isFile :: "host \<Rightarrow> jsval \<Rightarrow> error + bool" where
  "isFile h maybeFile =
     bindE (isUrl maybeFile) (\<lambda>u.
       Inr (\<not> u \<and> (case maybeFile of JString s \<Rightarrow> existsSync h s | _ \<Rightarrow> False)))"

text \<open>\<^verbatim>\<open>Object.keys(schemas)[0]\<close>.\<close>

fun first_key :: "(string \<times> jsval) list \<Rightarrow> jsval" where
  "first_key [] = JUndefined"
| "first_key ((k, v) # kvs) = JString k"

text \<open>
  The schema mapping is the list of its entries in insertion order. The destructuring
  \<^verbatim>\<open>const [[serviceName, schemaRef]] = Object.entries(obj.services)\<close> takes the first
  entry and throws when there is none.
\<close>

text \<open>The assignment \<^verbatim>\<open>schemas[serviceName] = {...}\<close> under a computed name. Under the name
  \<^verbatim>\<open>__proto__\<close> (an own key of \<^verbatim>\<open>services\<close> when the raw input was parsed from JSON) the
  assignment goes to the setter every plain object inherits: the object given becomes the
  prototype of the mapping and no entry is stored.\<close>

definition assign_computed ::
  "string \<Rightarrow> jsval \<Rightarrow> (string \<times> jsval) list \<Rightarrow> (string \<times> jsval) list" where
  "assign_computed k v kvs = (if k = ''__proto__'' then kvs else AList.update k v kvs)"

definition getSchemasFromServices ::
  "host \<Rightarrow> jsval \<Rightarrow> bool \<Rightarrow> bool \<Rightarrow> error + (string \<times> jsval) list" where
  "getSchemasFromServices h obj defaultEndpoint defaultSchema =
     bindE (getPropE obj ''services'') (\<lambda>services.
     bindE (if truthy services
            then (case ownEntries services of
                    [] \<Rightarrow> Inl TypeError
                  | (serviceName, schemaRef) # others \<Rightarrow>
                      bindE (isUrl schemaRef) (\<lambda>u.
                      bindE (if u then bindE (loadEndpointConfig schemaRef True)
                                         (\<lambda>(loaded, schemaRef'). Inr loaded)
                             else Inr JUndefined) (\<lambda>loaded.
                      bindE (isFile h schemaRef) (\<lambda>f.
                        Inr (assign_computed serviceName
                               (JObject
                                  [(''endpoint'', loaded),
                                   (''engineKey'', process_env_ENGINE_API_KEY h),
                                   (''clientSide'', JBool False),
                                   (''schema'', if f then schemaRef else JNull)])
                               [])))))
            else Inr []) (\<lambda>schemas1.
     bindE (if schemas1 = [] \<and> defaultSchema
            then bindE (loadSchemaConfig h (JObject []) defaultEndpoint)
                   (\<lambda>(loaded, obj'). Inr (AList.update ''default'' loaded schemas1))
            else Inr schemas1) (\<lambda>schemas2.
       Inr (if truthy (getProp obj ''clientSchema'')
            then AList.update ''default''
                   (JObject [(''schema'', getProp obj ''clientSchema''),
                             (''clientSide'', JBool True),
                             (''extends'', first_key schemas2)])
                   schemas2
            else schemas2))))"

subsection \<open>loadConfig\<close>

text \<open>\<^verbatim>\<open>xs.map(f)\<close> where \<open>f\<close> may throw: the first exception ends the map.\<close>

fun mapE :: "('a \<Rightarrow> error + 'b) \<Rightarrow> 'a list \<Rightarrow> error + 'b list" where
  "mapE f [] = Inr []"
| "mapE f (x # xs) = bindE (f x) (\<lambda>y. bindE (mapE f xs) (\<lambda>ys. Inr (y # ys)))"

fun elements :: "jsval \<Rightarrow> jsval list" where
  "elements (JArray xs) = xs"
| "elements v = [v]"

definition loadConfig ::
  "host \<Rightarrow> jsval \<Rightarrow> string \<Rightarrow> string \<Rightarrow> bool \<Rightarrow> bool \<Rightarrow> error + jsval" where
  "loadConfig h obj configFile configDir defaultEndpoint defaultSchema =
     bindE (getSchemasFromServices h obj defaultEndpoint defaultSchema) (\<lambda>schemas.
     bindE (mapE loadDocumentSet
              (if truthy (getProp obj ''queries'')
               then (if isArray (getProp obj ''queries'')
                     then elements (getProp obj ''queries'')
                     else [getProp obj ''queries''])
               else if length schemas = 1
                 then [JObject [(''schema'', first_key schemas)]]
               else [])) (\<lambda>queries.
       Inr (JObject
         [(''configFile'', JString configFile),
          (''projectFolder'', JString configDir),
          (''schemas'', JObject schemas),
          (''name'', JString (basename h configDir)),
          (''queries'', JArray queries),
          (''engineEndpoint'', getProp obj ''engineEndpoint'')])))"

section \<open>The canonical configuration\<close>

text \<open>
  The resolvers take an \<^verbatim>\<open>ApolloConfig\<close> as the interfaces of the source declare it. An
  optional field is an \<open>option\<close>. The schema mapping is a plain object: a finite map of its
  own keys, on top of the properties every plain object inherits.
\<close>

record EndpointConfig =
  url :: "string option"
  subscriptions :: "string option"
  headers :: "jsval option"
  skipSSLValidation :: "bool option"

record SchemaDependency =
  schema :: "string option"
  endpoint :: "EndpointConfig option"
  engineKey :: "string option"
  extends :: "string option"
  clientSide :: "bool option"

text \<open>\<^verbatim>\<open>DocumentSet\<close>; its fields carry the prefix \<open>doc_\<close> here.\<close>

record DocumentSet =
  doc_schema :: "string option"
  doc_includes :: "string list"
  doc_excludes :: "string list"

record ApolloConfig =
  configFile :: string
  projectFolder :: string
  name :: "string option"
  schemas :: "(string \<rightharpoonup> SchemaDependency) option"
  queries :: "DocumentSet list option"
  engineEndpoint :: "string option"

text \<open>\<^verbatim>\<open>ResolvedDocumentSet\<close>, over the collaborators' type of schema objects; its fields
  \<^verbatim>\<open>schema\<close>, \<^verbatim>\<open>endpoint\<close> and \<^verbatim>\<open>engineKey\<close> carry the prefix \<open>resolved_\<close>.\<close>

record 'sch ResolvedDocumentSet =
  resolved_schema :: "'sch option"
  resolved_endpoint :: "EndpointConfig option"
  resolved_engineKey :: "string option"
  documentPaths :: "string list"
  originalSet :: DocumentSet

text \<open>Truthiness of an optional string: \<^verbatim>\<open>undefined\<close> and \<^verbatim>\<open>""\<close> are falsy.\<close>

fun truthy_str :: "string option \<Rightarrow> bool" where
  "truthy_str None = False"
| "truthy_str (Some s) = (s \<noteq> [])"

text \<open>An optional string used as a property key: \<^verbatim>\<open>o[undefined]\<close> reads the property
  named \<^verbatim>\<open>undefined\<close>.\<close>

fun key_of :: "string option \<Rightarrow> string" where
  "key_of None = ''undefined''"
| "key_of (Some s) = s"

text \<open>
  What \<^verbatim>\<open>(config.schemas || {})[key]\<close> yields when it is not \<^verbatim>\<open>undefined\<close>: a dependency
  stored under the key, or, for a key the mapping does not hold itself, the property of that
  name that every plain object inherits from \<^verbatim>\<open>Object.prototype\<close> (a built-in function, or
  the prototype itself for \<^verbatim>\<open>__proto__\<close>). Such a value is truthy and has none of the fields
  of a dependency.
\<close>

datatype referred = Own SchemaDependency | Inherited string

definition object_prototype_names :: "string list" where
  "object_prototype_names =
     [''constructor'', ''__proto__'', ''hasOwnProperty'', ''isPrototypeOf'',
      ''propertyIsEnumerable'', ''toLocaleString'', ''toString'', ''valueOf'',
      ''__defineGetter__'', ''__defineSetter__'', ''__lookupGetter__'', ''__lookupSetter__'']"

definition inherited :: "string \<Rightarrow> referred option" where
  "inherited key = (if key \<in> set object_prototype_names then Some (Inherited key) else None)"

definition lookup_schema :: "ApolloConfig \<Rightarrow> string \<Rightarrow> referred option" where
  "lookup_schema config key =
     (case schemas config of
        None \<Rightarrow> inherited key
      | Some m \<Rightarrow> (case m key of Some d \<Rightarrow> Some (Own d) | None \<Rightarrow> inherited key))"

text \<open>The reads \<^verbatim>\<open>referredSchema.schema\<close>, \<^verbatim>\<open>.endpoint\<close>, \<^verbatim>\<open>.engineKey\<close>,
  \<^verbatim>\<open>.extends\<close> and \<^verbatim>\<open>.clientSide\<close>.\<close>

fun ref_schema :: "referred \<Rightarrow> string option" where
  "ref_schema (Own d) = schema d"
| "ref_schema (Inherited p) = None"

fun ref_endpoint :: "referred \<Rightarrow> EndpointConfig option" where
  "ref_endpoint (Own d) = endpoint d"
| "ref_endpoint (Inherited p) = None"

fun ref_engineKey :: "referred \<Rightarrow> string option" where
  "ref_engineKey (Own d) = engineKey d"
| "ref_engineKey (Inherited p) = None"

fun ref_extends :: "referred \<Rightarrow> string option" where
  "ref_extends (Own d) = extends d"
| "ref_extends (Inherited p) = None"

fun ref_clientSide :: "referred \<Rightarrow> bool option" where
  "ref_clientSide (Own d) = clientSide d"
| "ref_clientSide (Inherited p) = None"

text \<open>\<^verbatim>\<open>...(tag && { tag })\<close>: a falsy tag is not passed on.\<close>

definition pass_tag :: "string option \<Rightarrow> string option" where
  "pass_tag tag = (if truthy_str tag then tag else None)"

section \<open>Collaborators and runs\<close>

text \<open>
  The resolvers call into \<^verbatim>\<open>graphql\<close>, \<^verbatim>\<open>glob\<close>, \<^verbatim>\<open>minimatch\<close>, Node's path module,
  \<^verbatim>\<open>./load-schema\<close> and \<^verbatim>\<open>apollo-codegen-core\<close>; none of that code is part of this
  file, so the collaborators are parameters. Each may throw. \<open>visit\<close> stands for the call
  \<^verbatim>\<open>visit(ast, {enter ...})\<close> that marks every field definition of the tree in place, and
  yields the tree afterwards. \<open>loadSchema\<close> yields \<open>None\<close> for a falsy introspection result.
\<close>

record ('ast, 'sch, 'intro) collaborators =
  loadQueryDocuments :: "string option list \<Rightarrow> error + 'ast list"
  visit :: "'ast option \<Rightarrow> error + 'ast option"
  extendSchema :: "'sch option \<Rightarrow> 'ast option \<Rightarrow> error + 'sch"
  buildASTSchema :: "'ast option \<Rightarrow> error + 'sch"
  loadSchema :: "referred \<Rightarrow> ApolloConfig \<Rightarrow> string option \<Rightarrow> error + 'intro option"
  buildClientSchema :: "'intro \<Rightarrow> error + 'sch"
  glob_sync :: "string \<Rightarrow> string \<Rightarrow> error + string list"
  minimatch :: "string \<Rightarrow> string \<Rightarrow> bool"
  relative :: "string \<Rightarrow> string \<Rightarrow> string"

text \<open>The calls a run makes to the collaborators that read files, use the network or build
  schema objects, in order.\<close>

datatype call =
    LoadQueryDocuments "string option list"
  | Visit
  | ExtendSchema
  | BuildASTSchema
  | LoadSchema "string option"
  | BuildClientSchema
  | GlobSync string string

text \<open>
  A run ends with a value, with an exception, or not at all. The loop of
  \<open>resolveDocumentSets\<close> carries fuel, the number of iterations allowed: \<open>Diverged\<close> is the
  answer when it runs out, so a loop without end answers \<open>Diverged\<close> at every fuel.
\<close>

datatype 'a outcome = Returned 'a | Threw error | Diverged

type_synonym 'a run = "call list \<times> 'a outcome"

definition bindR :: "'a run \<Rightarrow> ('a \<Rightarrow> 'b run) \<Rightarrow> 'b run" where
  "bindR m f =
     (case m of
        (t, Returned x) \<Rightarrow> (case f x of (t', r) \<Rightarrow> (t @ t', r))
      | (t, Threw e) \<Rightarrow> (t, Threw e)
      | (t, Diverged) \<Rightarrow> (t, Diverged))"

definition callR :: "call \<Rightarrow> error + 'a \<Rightarrow> 'a run" where
  "callR c r = ([c], case r of Inl e \<Rightarrow> Threw e | Inr x \<Rightarrow> Returned x)"

definition returnR :: "'a \<Rightarrow> 'a run" where
  "returnR x = ([], Returned x)"

section \<open>resolveSchema\<close>

text \<open>The local function \<^verbatim>\<open>loadAsAST\<close>: the first document loaded from
  \<^verbatim>\<open>[referredSchema.schema]\<close>, marked when the dependency is client-side.\<close>

definition loadAsAST ::
  "('ast, 'sch, 'intro) collaborators \<Rightarrow> referred \<Rightarrow> 'ast option run" where
  "loadAsAST C referredSchema =
     bindR (callR (LoadQueryDocuments [ref_schema referredSchema])
              (loadQueryDocuments C [ref_schema referredSchema])) (\<lambda>docs.
       let ast = (case docs of [] \<Rightarrow> None | d # ds \<Rightarrow> Some d)
       in if ref_clientSide referredSchema = Some True then callR Visit (visit C ast)
          else returnR ast)"

text \<open>
  \<^verbatim>\<open>resolveSchema({name, config, tag})\<close>. A name the lookup does not find leaves
  \<^verbatim>\<open>referredSchema\<close> undefined, and the read of \<^verbatim>\<open>referredSchema.extends\<close> throws.
  In the extending case the arguments of \<^verbatim>\<open>extendSchema\<close> are evaluated left to right:
  the recursive call first, \<^verbatim>\<open>loadAsAST()\<close> after it has returned.

  The recursive call is the operand of \<^verbatim>\<open>await\<close>: it is made, and runs down to its own
  first \<^verbatim>\<open>await\<close>, before the caller suspends. The calls along a chain of \<^verbatim>\<open>extends\<close>
  references therefore nest on the call stack, and the engine throws a \<^verbatim>\<open>RangeError\<close> in
  the call for which no room is left; the \<^verbatim>\<open>async\<close> function turns it into a rejection,
  which each \<^verbatim>\<open>await\<close> above rethrows. The first argument is the number of nested calls
  the stack has room for, a number no engine leaves unbounded.
\<close>

fun resolveSchema ::
  "nat \<Rightarrow> ('ast, 'sch, 'intro) collaborators \<Rightarrow> ApolloConfig \<Rightarrow> string option \<Rightarrow> string
     \<Rightarrow> 'sch option run" where
  "resolveSchema 0 C config tag nm = ([], Threw RangeError)"
| "resolveSchema (Suc stack) C config tag nm =
     (case lookup_schema config nm of
        None \<Rightarrow> ([], Threw TypeError)
      | Some referredSchema \<Rightarrow>
          if truthy_str (ref_extends referredSchema)
          then bindR (resolveSchema stack C config (pass_tag tag)
                        (key_of (ref_extends referredSchema)))
                 (\<lambda>base.
               bindR (loadAsAST C referredSchema) (\<lambda>ast.
               bindR (callR ExtendSchema (extendSchema C base ast)) (\<lambda>s.
                 returnR (Some s))))
          else if ref_clientSide referredSchema = Some True
          then bindR (loadAsAST C referredSchema) (\<lambda>ast.
               bindR (callR BuildASTSchema (buildASTSchema C ast)) (\<lambda>s.
                 returnR (Some s)))
          else bindR (callR (LoadSchema (pass_tag tag))
                        (loadSchema C referredSchema config (pass_tag tag)))
                 (\<lambda>introspectionSchema.
                    case introspectionSchema of
                      None \<Rightarrow> returnR None
                    | Some i \<Rightarrow>
                        bindR (callR BuildClientSchema (buildClientSchema C i)) (\<lambda>s.
                          returnR (Some s))))"

section \<open>resolveDocumentSets\<close>

text \<open>The loop that collects \<^verbatim>\<open>schemaPaths\<close> along the \<^verbatim>\<open>extends\<close> chain. It follows
  \<^verbatim>\<open>currentSchema.extends\<close> as a key whether or not it is truthy, and calls no collaborator;
  \<open>None\<close> is the loop still running when the fuel is gone.\<close>

fun schemaPathsLoop ::
  "nat \<Rightarrow> ApolloConfig \<Rightarrow> referred option \<Rightarrow> string list \<Rightarrow> string list option" where
  "schemaPathsLoop fuel config None schemaPaths = Some schemaPaths"
| "schemaPathsLoop 0 config (Some currentSchema) schemaPaths = None"
| "schemaPathsLoop (Suc fuel) config (Some currentSchema) schemaPaths =
     schemaPathsLoop fuel config
       (lookup_schema config (key_of (ref_extends currentSchema)))
       (if truthy_str (ref_schema currentSchema)
        then schemaPaths @ [key_of (ref_schema currentSchema)]
        else schemaPaths)"

text \<open>\<^verbatim>\<open>doc.includes.flatMap(i => withGlobalFS(() => fg.sync(i, {cwd, absolute: true})))\<close>:
  one call of the glob collaborator per include pattern, the results concatenated.\<close>

fun flatMap_glob ::
  "('ast, 'sch, 'intro) collaborators \<Rightarrow> string \<Rightarrow> string list \<Rightarrow> string list run" where
  "flatMap_glob C cwd [] = returnR []"
| "flatMap_glob C cwd (i # rest) =
     bindR (callR (GlobSync i cwd) (glob_sync C i cwd)) (\<lambda>found.
     bindR (flatMap_glob C cwd rest) (\<lambda>more.
       returnR (found @ more)))"

text \<open>The callback of \<^verbatim>\<open>resolveDocumentSets\<close> on one document set, with the fuel of its
  loop and the room the call stack has for \<open>resolveSchema\<close>.\<close>

definition resolveDocumentSet ::
  "nat \<Rightarrow> nat \<Rightarrow> ('ast, 'sch, 'intro) collaborators \<Rightarrow> ApolloConfig \<Rightarrow> bool \<Rightarrow> string option
     \<Rightarrow> DocumentSet \<Rightarrow> 'sch ResolvedDocumentSet run" where
  "resolveDocumentSet fuel stack C config needSchema tag doc =
     (let referredSchema =
            (if truthy_str (doc_schema doc) then lookup_schema config (key_of (doc_schema doc))
             else None)
      in case schemaPathsLoop fuel config
                (lookup_schema config (key_of (doc_schema doc))) [] of
           None \<Rightarrow> ([], Diverged)
         | Some schemaPaths \<Rightarrow>
             bindR (if needSchema \<and> truthy_str (doc_schema doc)
                    then resolveSchema stack C config (pass_tag tag) (key_of (doc_schema doc))
                    else returnR None) (\<lambda>resolved.
             bindR (flatMap_glob C (projectFolder config) (doc_includes doc)) (\<lambda>found.
               returnR
                 \<lparr>resolved_schema = resolved,
                  resolved_endpoint =
                    (case referredSchema of None \<Rightarrow> None | Some r \<Rightarrow> ref_endpoint r),
                  resolved_engineKey =
                    (case referredSchema of None \<Rightarrow> None | Some r \<Rightarrow> ref_engineKey r),
                  documentPaths =
                    filter (\<lambda>f. \<not> list_ex
                                (\<lambda>e. minimatch C (relative C (projectFolder config) f) e)
                                (doc_excludes doc @ schemaPaths))
                      found,
                  originalSet = doc\<rparr>)))"

text \<open>
  \<^verbatim>\<open>Promise.all(docs.map(async doc => ...))\<close>. The callbacks are started one after another
  in list order. A callback that throws only rejects its own promise, so the later callbacks
  still run, and the whole call rejects with an error once all have run; a callback that never
  returns keeps every later one from starting. With \<^verbatim>\<open>needSchema\<close> false no callback
  reaches an \<^verbatim>\<open>await\<close>, and this is exactly the order of events. With \<^verbatim>\<open>needSchema\<close>
  true the calls of different sets may interleave after the first \<^verbatim>\<open>await\<close>, and the
  error reported is the one rejected first in time; the model lists each set's calls together
  and reports the first error in list order.
\<close>

fun promise_all :: "'a run list \<Rightarrow> 'a list run" where
  "promise_all [] = returnR []"
| "promise_all ((t, Diverged) # rest) = (t, Diverged)"
| "promise_all ((t, Threw e) # rest) =
     (case promise_all rest of
        (t', Diverged) \<Rightarrow> (t @ t', Diverged)
      | (t', r) \<Rightarrow> (t @ t', Threw e))"
| "promise_all ((t, Returned x) # rest) =
     (case promise_all rest of
        (t', Returned xs) \<Rightarrow> (t @ t', Returned (x # xs))
      | (t', Threw e) \<Rightarrow> (t @ t', Threw e)
      | (t', Diverged) \<Rightarrow> (t @ t', Diverged))"

definition resolveDocumentSets ::
  "nat \<Rightarrow> nat \<Rightarrow> ('ast, 'sch, 'intro) collaborators \<Rightarrow> ApolloConfig \<Rightarrow> bool \<Rightarrow> string option
     \<Rightarrow> 'sch ResolvedDocumentSet list run" where
  "resolveDocumentSets fuel stack C config needSchema tag =
     promise_all
       (map (resolveDocumentSet fuel stack C config needSchema tag)
          (case queries config of None \<Rightarrow> [] | Some docs \<Rightarrow> docs))"

section \<open>Shapes of raw input\<close>

text \<open>
  The normalisers check nothing; they throw where the runtime does. These predicates name the
  shapes of raw input that keep each of them clear of a \<^verbatim>\<open>TypeError\<close>. They are not in the
  source: they describe its inputs.
\<close>

text \<open>A value that has properties to read.\<close>

definition not_nullish :: "jsval \<Rightarrow> bool" where
  "not_nullish v = (v \<noteq> JUndefined \<and> v \<noteq> JNull)"

text \<open>A raw endpoint whose \<^verbatim>\<open>url\<close> is never asked for a \<^verbatim>\<open>replace\<close> method it does not
  have: a string, a falsy value, or a value with a truthy \<^verbatim>\<open>subscriptions\<close>, with no truthy
  \<^verbatim>\<open>url\<close>, or with a string \<^verbatim>\<open>url\<close>.\<close>

definition endpoint_shape :: "jsval \<Rightarrow> bool" where
  "endpoint_shape ep =
     (typeof_string ep \<or> \<not> truthy ep \<or> truthy (getProp ep ''subscriptions'')
      \<or> \<not> truthy (getProp ep ''url'') \<or> typeof_string (getProp ep ''url''))"

text \<open>A raw top-level object whose \<^verbatim>\<open>services\<close> is falsy, or has a first entry whose value
  is a string.\<close>

definition services_shape :: "jsval \<Rightarrow> bool" where
  "services_shape raw =
     (\<not> truthy (getProp raw ''services'')
      \<or> (case ownEntries (getProp raw ''services'') of
            (serviceName, JString ref) # others \<Rightarrow> True
          | _ \<Rightarrow> False))"

text \<open>A raw top-level object whose \<^verbatim>\<open>queries\<close>, when an array, holds no \<^verbatim>\<open>undefined\<close>
  and no \<^verbatim>\<open>null\<close>.\<close>

definition queries_shape :: "jsval \<Rightarrow> bool" where
  "queries_shape raw =
     (case getProp raw ''queries'' of
        JArray qs \<Rightarrow> list_all not_nullish qs
      | _ \<Rightarrow> True)"

section \<open>Extension chains\<close>

text \<open>
  The dependency a name extends, as \<open>resolveSchema\<close> reads it: the \<^verbatim>\<open>extends\<close> of the
  dependency the name refers to, when that is truthy. These functions are not in the source:
  they describe the chain the recursion walks.
\<close>

definition extends_target :: "ApolloConfig \<Rightarrow> string \<Rightarrow> string option" where
  "extends_target config nm =
     (case lookup_schema config nm of
        None \<Rightarrow> None
      | Some r \<Rightarrow> if truthy_str (ref_extends r) then Some (key_of (ref_extends r)) else None)"

text \<open>The name reached after \<open>k\<close> steps along the chain, if the chain is that long.\<close>

fun follow :: "nat \<Rightarrow> ApolloConfig \<Rightarrow> string \<Rightarrow> string option" where
  "follow 0 config nm = Some nm"
| "follow (Suc k) config nm =
     (case extends_target config nm of None \<Rightarrow> None | Some nm' \<Rightarrow> follow k config nm')"

text \<open>A name lies on a cycle when some positive number of steps leads back to it.\<close>

definition on_cycle :: "ApolloConfig \<Rightarrow> string \<Rightarrow> bool" where
  "on_cycle config nm = (\<exists>k. 0 < k \<and> follow k config nm = Some nm)"

text \<open>The chain from a name ends within \<open>n\<close> lookups: it reaches a name the lookup does not
  find, or a dependency that extends nothing.\<close>

fun chain_ends :: "nat \<Rightarrow> ApolloConfig \<Rightarrow> string \<Rightarrow> bool" where
  "chain_ends 0 config nm = False"
| "chain_ends (Suc n) config nm =
     (case extends_target config nm of None \<Rightarrow> True | Some nm' \<Rightarrow> chain_ends n config nm')"

section \<open>Kinds of collaborator calls\<close>

text \<open>The calls that fetch an introspection result, load or mark a tree, or build a schema
  object from either: every call but the glob expansion. Not in the source: it names the calls
  a run is not to make.\<close>

fun schema_call :: "call \<Rightarrow> bool" where
  "schema_call (GlobSync pattern cwd) = False"
| "schema_call c = True"


text \<open>A path that none of the patterns matches, relative to the project folder: the test of
  the \<^verbatim>\<open>filter\<close> in \<open>resolveDocumentSet\<close>.\<close>

definition not_excluded ::
  "('ast, 'sch, 'intro) collaborators \<Rightarrow> ApolloConfig \<Rightarrow> string list \<Rightarrow> string \<Rightarrow> bool" where
  "not_excluded C config patterns f =
     (\<not> list_ex (\<lambda>e. minimatch C (relative C (projectFolder config) f) e) patterns)"

section \<open>The schema files of a chain\<close>

text \<open>
  The values the loop of \<open>resolveDocumentSets\<close> walks through: from a value found, on to what
  the lookup finds under its \<^verbatim>\<open>extends\<close> used as a key, until the lookup finds nothing.
  \<open>chain_from config start rs\<close> says that \<open>rs\<close> is that walk from \<open>start\<close>, in order. A
  chain that returns to itself has no such list. Not in the source: it says which
  dependencies the schema paths are taken from.
\<close>

inductive chain_from :: "ApolloConfig \<Rightarrow> referred option \<Rightarrow> referred list \<Rightarrow> bool" where
  chain_end: "chain_from config None []"
| chain_step:
    "chain_from config (lookup_schema config (key_of (ref_extends r))) rs
       \<Longrightarrow> chain_from config (Some r) (r # rs)"

text \<open>The truthy \<^verbatim>\<open>schema\<close> fields of a list of dependencies, in order.\<close>

definition schema_files :: "referred list \<Rightarrow> string list" where
  "schema_files rs = map (\<lambda>r. key_of (ref_schema r)) (filter (\<lambda>r. truthy_str (ref_schema r)) rs)"

section \<open>Example inputs\<close>

text \<open>Three hosts: one with a credential in the environment, one with the variable set to the
  empty string, one without it. \<^verbatim>\<open>schema.json\<close> is the only file that exists, and the
  base name of a path is what follows its last slash.\<close>

definition host_with_key :: host where
  "host_with_key =
     \<lparr>ENGINE_API_KEY = Some ''service:env-key'',
      existsSync = (\<lambda>p. p = ''schema.json''),
      basename = (\<lambda>p. rev (takeWhile (\<lambda>c. c \<noteq> CHR ''/'') (rev p)))\<rparr>"

definition host_empty_key :: host where
  "host_empty_key = host_with_key\<lparr>ENGINE_API_KEY := Some ''''\<rparr>"

definition host_no_key :: host where
  "host_no_key = host_with_key\<lparr>ENGINE_API_KEY := None\<rparr>"

text \<open>Collaborators over a toy file system that holds the one document
  \<^verbatim>\<open>queries/a.graphql\<close> under every project folder: every pattern but \<^verbatim>\<open>none\<close> finds it,
  and \<^verbatim>\<open>minimatch\<close> is equality of path and pattern. Trees, schema objects and introspection
  results are strings that spell out how they were built.\<close>

definition toy :: "(string, string, string) collaborators" where
  "toy =
     \<lparr>loadQueryDocuments = (\<lambda>paths. Inr (map (\<lambda>p. ''ast('' @ key_of p @ '')'') paths)),
      visit = (\<lambda>ast. Inr (map_option (\<lambda>a. ''client '' @ a) ast)),
      extendSchema = (\<lambda>base ast. Inr (key_of base @ '' + '' @ key_of ast)),
      buildASTSchema = (\<lambda>ast. Inr (''schema of '' @ key_of ast)),
      loadSchema = (\<lambda>dependency config tag. Inr (Some ''introspection'')),
      buildClientSchema = (\<lambda>i. Inr (''schema of '' @ i)),
      glob_sync = (\<lambda>pattern cwd.
         Inr (if pattern = ''none'' then [] else [cwd @ ''/queries/a.graphql''])),
      minimatch = (\<lambda>p pattern. p = pattern),
      relative = (\<lambda>from to. drop (length from + 1) to)\<rparr>"

text \<open>A dependency with nothing but the given \<^verbatim>\<open>extends\<close>.\<close>

definition extending :: "string option \<Rightarrow> SchemaDependency" where
  "extending base =
     \<lparr>schema = None, endpoint = None, engineKey = Some ''key'', extends = base,
      clientSide = None\<rparr>"

text \<open>\<^verbatim>\<open>A\<close> extends \<^verbatim>\<open>B\<close> and \<^verbatim>\<open>B\<close> extends \<^verbatim>\<open>A\<close>; \<^verbatim>\<open>leaf\<close> extends \<^verbatim>\<open>base\<close>, which
  extends nothing. The document sets are given by the second argument.\<close>

definition example_config :: "DocumentSet list \<Rightarrow> ApolloConfig" where
  "example_config docs =
     \<lparr>configFile = ''/project/apollo.config.js'',
      projectFolder = ''/project'',
      name = Some ''project'',
      schemas = Some [''A'' \<mapsto> extending (Some ''B''), ''B'' \<mapsto> extending (Some ''A''),
                      ''leaf'' \<mapsto> extending (Some ''base''), ''base'' \<mapsto> extending None],
      queries = Some docs,
      engineEndpoint = None\<rparr>"

text \<open>Collaborators over a project that holds \<^verbatim>\<open>schema.graphql\<close>,
  \<^verbatim>\<open>queries/a.graphql\<close> and \<^verbatim>\<open>queries/b.graphql\<close>: the pattern \<^verbatim>\<open>*.graphql\<close> finds the
  first, \<^verbatim>\<open>queries/*.graphql\<close> the other two, \<^verbatim>\<open>**\<close> all three.\<close>

definition project_files :: "string \<Rightarrow> string list" where
  "project_files pattern =
     (if pattern = ''**'' then [''schema.graphql'', ''queries/a.graphql'', ''queries/b.graphql'']
      else if pattern = ''queries/*.graphql'' then [''queries/a.graphql'', ''queries/b.graphql'']
      else if pattern = ''*.graphql'' then [''schema.graphql'']
      else [])"

definition project :: "(string, string, string) collaborators" where
  "project = toy\<lparr>glob_sync := (\<lambda>pattern cwd. Inr (map (\<lambda>f. cwd @ ''/'' @ f) (project_files pattern)))\<rparr>"


section \<open>Facts about strings\<close>

lemma string_replace_first:
  assumes "pat \<noteq> []"
    and "\<forall>a' b'. a @ pat @ b = a' @ pat @ b' \<longrightarrow> length a \<le> length a'"
  shows "string_replace pat rep (a @ pat @ b) = a @ rep @ b"
  using assms
proof (induction a)
  case Nil
  then show ?case by (cases pat) simp_all
next
  case (Cons x a)
  have "\<not> prefix pat (x # a @ pat @ b)"
  proof
    assume "prefix pat (x # a @ pat @ b)"
    then obtain b' where "x # a @ pat @ b = pat @ b'" by (auto simp: prefix_def)
    then have "(x # a) @ pat @ b = [] @ pat @ b'" by simp
    with Cons.prems(2) have "length (x # a) \<le> length ([]::string)" by blast
    then show False by simp
  qed
  moreover have "\<forall>a' b'. a @ pat @ b = a' @ pat @ b' \<longrightarrow> length a \<le> length a'"
  proof (intro allI impI)
    fix a' b' assume "a @ pat @ b = a' @ pat @ b'"
    then have "(x # a) @ pat @ b = (x # a') @ pat @ b'" by simp
    with Cons.prems(2) have "length (x # a) \<le> length (x # a')" by blast
    then show "length a \<le> length a'" by simp
  qed
  ultimately show ?case using Cons.IH Cons.prems(1) by simp
qed

lemma string_replace_absent:
  assumes "\<not> (\<exists>a b. s = a @ pat @ b)"
  shows "string_replace pat rep s = s"
  using assms
proof (induction s)
  case Nil
  then show ?case by auto
next
  case (Cons c cs)
  have "\<not> prefix pat (c # cs)"
  proof
    assume "prefix pat (c # cs)"
    then obtain b where "c # cs = [] @ pat @ b" by (auto simp: prefix_def)
    with Cons.prems show False by blast
  qed
  moreover have "\<not> (\<exists>a b. cs = a @ pat @ b)"
  proof
    assume "\<exists>a b. cs = a @ pat @ b"
    then obtain a b where "cs = a @ pat @ b" by blast
    then have "c # cs = (c # a) @ pat @ b" by simp
    with Cons.prems show False by blast
  qed
  ultimately show ?case using Cons.IH by simp
qed

lemma occurs_iff: "occurs pat s \<longleftrightarrow> (\<exists>a b. s = a @ pat @ b)"
proof (induction s)
  case Nil
  then show ?case by auto
next
  case (Cons c cs)
  show ?case
  proof
    assume "occurs pat (c # cs)"
    then consider "prefix pat (c # cs)" | "occurs pat cs" by auto
    then show "\<exists>a b. c # cs = a @ pat @ b"
    proof cases
      case 1
      then obtain b where "c # cs = [] @ pat @ b" by (auto simp: prefix_def)
      then show ?thesis by blast
    next
      case 2
      with Cons.IH obtain a b where "cs = a @ pat @ b" by blast
      then have "c # cs = (c # a) @ pat @ b" by simp
      then show ?thesis by blast
    qed
  next
    assume "\<exists>a b. c # cs = a @ pat @ b"
    then obtain a b where ab: "c # cs = a @ pat @ b" by blast
    show "occurs pat (c # cs)"
    proof (cases a)
      case Nil
      with ab have "prefix pat (c # cs)" by (simp add: prefix_def)
      then show ?thesis by simp
    next
      case (Cons x a')
      with ab have "cs = a' @ pat @ b" by simp
      with Cons.IH have "occurs pat cs" by blast
      then show ?thesis by simp
    qed
  qed
qed

section \<open>Endpoint declarations given as a string\<close>

text \<open>
  Claim C7, as amended. For every non-empty string \<open>s\<close>, \<open>loadEndpointConfig\<close> on the bare
  string \<open>s\<close> returns a fresh object with exactly \<^verbatim>\<open>url = s\<close> and \<^verbatim>\<open>subscriptions\<close>
  equal to \<open>s\<close> with \<^verbatim>\<open>http\<close> replaced by \<^verbatim>\<open>ws\<close>, and leaves its argument alone. The
  replacement rewrites the first occurrence only (case-sensitive, nothing else changes): when
  \<open>s = a @ http @ b\<close> and no occurrence starts before \<open>a\<close> ends, the result is
  \<open>a @ ws @ b\<close>; when \<^verbatim>\<open>http\<close> does not occur in \<open>s\<close>, the result is \<open>s\<close>.
\<close>

theorem loadEndpointConfig_bare_string:
  assumes "s \<noteq> []"
  shows "loadEndpointConfig (JString s) shouldDefaultURL =
           Inr (JObject [(''url'', JString s),
                         (''subscriptions'', JString (string_replace ''http'' ''ws'' s))],
                JString s)
       \<and> (\<forall>a b. s = a @ ''http'' @ b
                 \<and> (\<forall>a' b'. s = a' @ ''http'' @ b' \<longrightarrow> length a \<le> length a')
             \<longrightarrow> string_replace ''http'' ''ws'' s = a @ ''ws'' @ b)
       \<and> ((\<nexists>a b. s = a @ ''http'' @ b) \<longrightarrow> string_replace ''http'' ''ws'' s = s)"
proof (intro conjI allI impI)
  show "loadEndpointConfig (JString s) shouldDefaultURL =
           Inr (JObject [(''url'', JString s),
                         (''subscriptions'', JString (string_replace ''http'' ''ws'' s))],
                JString s)"
    using assms by (simp add: loadEndpointConfig_def)
next
  fix a b
  assume h: "s = a @ ''http'' @ b
      \<and> (\<forall>a' b'. s = a' @ ''http'' @ b' \<longrightarrow> length a \<le> length a')"
  then have "\<forall>a' b'. a @ ''http'' @ b = a' @ ''http'' @ b' \<longrightarrow> length a \<le> length a'"
    by simp
  then have "string_replace ''http'' ''ws'' (a @ ''http'' @ b) = a @ ''ws'' @ b"
    by (intro string_replace_first) simp_all
  with h show "string_replace ''http'' ''ws'' s = a @ ''ws'' @ b" by simp
next
  assume "\<nexists>a b. s = a @ ''http'' @ b"
  then show "string_replace ''http'' ''ws'' s = s" by (rule string_replace_absent)
qed

text \<open>The theorem at \<^verbatim>\<open>https://x.io/http\<close> (the first of two occurrences is replaced) and at
  \<^verbatim>\<open>localhost\<close> (no occurrence).\<close>

theorem loadEndpointConfig_bare_string_witness:
  "loadEndpointConfig (JString ''https://x.io/http'') False =
     Inr (JObject [(''url'', JString ''https://x.io/http''),
                   (''subscriptions'', JString ''wss://x.io/http'')],
          JString ''https://x.io/http'')
   \<and> string_replace ''http'' ''ws'' ''https://x.io/http'' = [] @ ''ws'' @ ''s://x.io/http''
   \<and> string_replace ''http'' ''ws'' ''localhost'' = ''localhost''"
proof -
  have ne: "''https://x.io/http'' \<noteq> []" by simp
  have first: "''https://x.io/http'' = [] @ ''http'' @ ''s://x.io/http''
      \<and> (\<forall>a' b'. ''https://x.io/http'' = a' @ ''http'' @ b' \<longrightarrow> length ([]::string) \<le> length a')"
    by simp
  have ne2: "''localhost'' \<noteq> []" by simp
  have "\<not> occurs ''http'' ''localhost''" by simp
  then have absent: "\<nexists>a b. ''localhost'' = a @ ''http'' @ b"
    unfolding occurs_iff .
  note t1 = loadEndpointConfig_bare_string [OF ne, of False]
  note t2 = loadEndpointConfig_bare_string [OF ne2, of False]
  from t1 have a: "loadEndpointConfig (JString ''https://x.io/http'') False =
     Inr (JObject [(''url'', JString ''https://x.io/http''),
                   (''subscriptions'', JString (string_replace ''http'' ''ws'' ''https://x.io/http''))],
          JString ''https://x.io/http'')"
    by (rule conjunct1)
  from t1 first have b: "string_replace ''http'' ''ws'' ''https://x.io/http'' = [] @ ''ws'' @ ''s://x.io/http''"
    by blast
  from t2 absent have c: "string_replace ''http'' ''ws'' ''localhost'' = ''localhost''"
    by blast
  from a b c show ?thesis by (simp only: append_Nil append_Cons simp_thms)
qed

text \<open>The claim as written covers the empty string too. There the guard
  \<^verbatim>\<open>preSubscriptions.url\<close> is falsy and no \<^verbatim>\<open>subscriptions\<close> is assigned: the result is
  \<^verbatim>\<open>{url: ""}\<close>, whose \<^verbatim>\<open>subscriptions\<close> is undefined and not the unchanged string.\<close>

theorem loadEndpointConfig_empty_string_counterexample:
  "loadEndpointConfig (JString '''') False = Inr (JObject [(''url'', JString '''')], JString '''')
   \<and> getProp (JObject [(''url'', JString '''')]) ''subscriptions'' = JUndefined
   \<and> JUndefined \<noteq> JString (string_replace ''http'' ''ws'' '''')"
  by (simp add: loadEndpointConfig_def)

section \<open>Facts about the normalisers\<close>

lemma map_of_update: "map_of (AList.update k v kvs) k' = (if k' = k then Some v else map_of kvs k')"
  by (simp add: update_conv')

lemma bindE_Inr_iff: "bindE m f = Inr y \<longleftrightarrow> (\<exists>x. m = Inr x \<and> f x = Inr y)"
  by (cases m) (simp_all add: bindE_def)

lemma bindE_simps [simp]: "bindE (Inr x) f = f x" "bindE (Inl e) f = Inl e"
  by (simp_all add: bindE_def)

lemma loadSchemaConfig_result:
  assumes "loadSchemaConfig h obj d = Inr (r, obj')"
  shows "\<exists>loaded. r = setProp (setProp (JObject (ownEntries obj)) ''endpoint'' loaded) ''engineKey''
             (js_or (process_env_ENGINE_API_KEY h) (getProp obj ''engineKey''))"
  using assms
  by (auto simp: loadSchemaConfig_def bindE_Inr_iff split: prod.splits)

lemma loadSchemaConfig_engineKey:
  assumes "loadSchemaConfig h obj d = Inr (r, obj')"
  shows "getProp r ''engineKey'' = js_or (process_env_ENGINE_API_KEY h) (getProp obj ''engineKey'')"
proof -
  from loadSchemaConfig_result [OF assms] obtain loaded where
    "r = setProp (setProp (JObject (ownEntries obj)) ''endpoint'' loaded) ''engineKey''
             (js_or (process_env_ENGINE_API_KEY h) (getProp obj ''engineKey''))" by blast
  then show ?thesis by (simp add: map_of_update)
qed

lemma loadSchemaConfig_empty:
  "\<exists>loaded. loadSchemaConfig h (JObject []) d =
     Inr (JObject [(''endpoint'', loaded),
                   (''engineKey'', js_or (process_env_ENGINE_API_KEY h) JUndefined)], JObject [])"
  by (simp add: loadSchemaConfig_def loadEndpointConfig_def)


lemma occurs_nonempty: "occurs (p # ps) s \<Longrightarrow> s \<noteq> []"
  by (cases s) auto

lemma getSchemasFromServices_no_services:
  assumes "obj \<noteq> JUndefined" "obj \<noteq> JNull" "\<not> truthy (getProp obj ''services'')"
  shows "\<exists>loaded. getSchemasFromServices h obj dE dS =
     Inr (let schemas2 =
                (if dS then [(''default'', JObject [(''endpoint'', loaded),
                    (''engineKey'', js_or (process_env_ENGINE_API_KEY h) JUndefined)])]
                 else [])
          in if truthy (getProp obj ''clientSchema'')
             then AList.update ''default''
                   (JObject [(''schema'', getProp obj ''clientSchema''),
                             (''clientSide'', JBool True),
                             (''extends'', first_key schemas2)])
                   schemas2
             else schemas2)"
proof -
  from loadSchemaConfig_empty [of h dE] obtain loaded where
    l: "loadSchemaConfig h (JObject []) dE =
     Inr (JObject [(''endpoint'', loaded),
                   (''engineKey'', js_or (process_env_ENGINE_API_KEY h) JUndefined)], JObject [])"
    by blast
  have g: "getPropE obj ''services'' = Inr (getProp obj ''services'')"
    using assms(1,2) by (cases obj) simp_all
  show ?thesis
    using assms(3) by (intro exI [of _ loaded]) (simp add: getSchemasFromServices_def g l Let_def)
qed

lemma getSchemasFromServices_service:
  assumes "obj \<noteq> JUndefined" "obj \<noteq> JNull" "truthy (getProp obj ''services'')"
    and "ownEntries (getProp obj ''services'') = (serviceName, JString ref) # others"
    and "serviceName \<noteq> ''__proto__''"
  shows "getSchemasFromServices h obj dE dS =
     Inr (let schemas2 =
                [(serviceName, JObject
                   [(''endpoint'',
                       if occurs ''http'' ref
                       then JObject [(''url'', JString ref),
                              (''subscriptions'', JString (string_replace ''http'' ''ws'' ref))]
                       else JUndefined),
                    (''engineKey'', process_env_ENGINE_API_KEY h),
                    (''clientSide'', JBool False),
                    (''schema'', if \<not> occurs ''http'' ref \<and> existsSync h ref
                                 then JString ref else JNull)])]
          in if truthy (getProp obj ''clientSchema'')
             then AList.update ''default''
                   (JObject [(''schema'', getProp obj ''clientSchema''),
                             (''clientSide'', JBool True),
                             (''extends'', JString serviceName)])
                   schemas2
             else schemas2)"
proof -
  have g: "getPropE obj ''services'' = Inr (getProp obj ''services'')"
    using assms(1,2) by (cases obj) simp_all
  have e: "occurs ''http'' ref \<Longrightarrow> loadEndpointConfig (JString ref) True =
     Inr (JObject [(''url'', JString ref),
             (''subscriptions'', JString (string_replace ''http'' ''ws'' ref))], JString ref)"
    using occurs_nonempty [of "CHR ''h''" "''ttp''" ref] by (simp add: loadEndpointConfig_def)
  show ?thesis
    using assms(3,4,5) e
    by (cases "occurs ''http'' ref")
       (simp_all add: getSchemasFromServices_def g isFile_def Let_def assign_computed_def)
qed

lemma getSchemasFromServices_proto:
  assumes "obj \<noteq> JUndefined" "obj \<noteq> JNull" "truthy (getProp obj ''services'')"
    and "ownEntries (getProp obj ''services'') = (''__proto__'', JString ref) # others"
  shows "\<exists>loaded. getSchemasFromServices h obj dE dS =
     Inr (let schemas2 =
                (if dS then [(''default'', JObject [(''endpoint'', loaded),
                    (''engineKey'', js_or (process_env_ENGINE_API_KEY h) JUndefined)])]
                 else [])
          in if truthy (getProp obj ''clientSchema'')
             then AList.update ''default''
                   (JObject [(''schema'', getProp obj ''clientSchema''),
                             (''clientSide'', JBool True),
                             (''extends'', first_key schemas2)])
                   schemas2
             else schemas2)"
proof -
  from loadSchemaConfig_empty [of h dE] obtain loaded where
    l: "loadSchemaConfig h (JObject []) dE =
     Inr (JObject [(''endpoint'', loaded),
                   (''engineKey'', js_or (process_env_ENGINE_API_KEY h) JUndefined)], JObject [])"
    by blast
  have g: "getPropE obj ''services'' = Inr (getProp obj ''services'')"
    using assms(1,2) by (cases obj) simp_all
  have e: "occurs ''http'' ref \<Longrightarrow> loadEndpointConfig (JString ref) True =
     Inr (JObject [(''url'', JString ref),
             (''subscriptions'', JString (string_replace ''http'' ''ws'' ref))], JString ref)"
    using occurs_nonempty [of "CHR ''h''" "''ttp''" ref] by (simp add: loadEndpointConfig_def)
  show ?thesis
    using assms(3,4) e
    by (intro exI [of _ loaded], cases "occurs ''http'' ref")
       (simp_all add: getSchemasFromServices_def g l isFile_def Let_def assign_computed_def)
qed

lemma getSchemasFromServices_bad_service:
  assumes "truthy (getProp obj ''services'')"
    and "ownEntries (getProp obj ''services'') = []
       \<or> (\<exists>serviceName v others. ownEntries (getProp obj ''services'') = (serviceName, v) # others
             \<and> \<not> typeof_string v)"
  shows "getSchemasFromServices h obj dE dS = Inl TypeError"
proof -
  have g: "getPropE obj ''services'' = Inr (getProp obj ''services'')"
    using assms(1) by (cases obj) simp_all
  have u: "\<not> typeof_string v \<Longrightarrow> isUrl v = Inl TypeError" for v
    by (cases v) simp_all
  from assms(2) show ?thesis
    using assms(1) by (auto simp: getSchemasFromServices_def g u)
qed

section \<open>The credential of the environment\<close>

text \<open>
  Claim C6, as amended. Whenever \<open>loadSchemaConfig\<close> returns, the \<^verbatim>\<open>engineKey\<close> of its
  result is the value of \<^verbatim>\<open>ENGINE_API_KEY\<close> when that is set to a non-empty string,
  whatever key the raw dependency configures; when the variable is absent or empty, it is the
  raw dependency's own \<^verbatim>\<open>engineKey\<close>. When \<open>getSchemasFromServices\<close> returns on a
  \<^verbatim>\<open>services\<close> shorthand whose first service has a name other than \<^verbatim>\<open>__proto__\<close>, with no
  \<^verbatim>\<open>clientSchema\<close>, its result is the one dependency stored under that name, and this
  dependency carries the value of the variable as it is.
\<close>

theorem engineKey_environment_override:
  "(\<forall>r obj'. loadSchemaConfig h obj defaultEndpoint = Inr (r, obj') \<longrightarrow>
      (\<forall>key. ENGINE_API_KEY h = Some key \<and> key \<noteq> [] \<longrightarrow> getProp r ''engineKey'' = JString key)
    \<and> (ENGINE_API_KEY h = None \<or> ENGINE_API_KEY h = Some [] \<longrightarrow>
          getProp r ''engineKey'' = getProp obj ''engineKey''))
 \<and> (\<forall>schemas serviceName schemaRef others.
        truthy (getProp raw ''services'') \<and> \<not> truthy (getProp raw ''clientSchema'')
        \<and> ownEntries (getProp raw ''services'') = (serviceName, schemaRef) # others
        \<and> serviceName \<noteq> ''__proto__''
        \<and> getSchemasFromServices h raw defaultEndpoint defaultSchema = Inr schemas \<longrightarrow>
      (\<exists>dep. schemas = [(serviceName, dep)]
         \<and> getProp dep ''engineKey'' = process_env_ENGINE_API_KEY h))"
proof (intro conjI allI impI)
  fix r obj' key
  assume "loadSchemaConfig h obj defaultEndpoint = Inr (r, obj')"
    and "ENGINE_API_KEY h = Some key \<and> key \<noteq> []"
  then show "getProp r ''engineKey'' = JString key"
    by (simp add: loadSchemaConfig_engineKey js_or_def process_env_ENGINE_API_KEY_def)
next
  fix r obj'
  assume "loadSchemaConfig h obj defaultEndpoint = Inr (r, obj')"
    and "ENGINE_API_KEY h = None \<or> ENGINE_API_KEY h = Some []"
  then show "getProp r ''engineKey'' = getProp obj ''engineKey''"
    by (auto simp: loadSchemaConfig_engineKey js_or_def process_env_ENGINE_API_KEY_def)
next
  fix schemas serviceName schemaRef others
  assume a: "truthy (getProp raw ''services'') \<and> \<not> truthy (getProp raw ''clientSchema'')
        \<and> ownEntries (getProp raw ''services'') = (serviceName, schemaRef) # others
        \<and> serviceName \<noteq> ''__proto__''
        \<and> getSchemasFromServices h raw defaultEndpoint defaultSchema = Inr schemas"
  then have nn: "raw \<noteq> JUndefined" "raw \<noteq> JNull" by auto
  have "typeof_string schemaRef"
  proof (rule ccontr)
    assume "\<not> typeof_string schemaRef"
    with a have "ownEntries (getProp raw ''services'') = []
       \<or> (\<exists>serviceName v others. ownEntries (getProp raw ''services'') = (serviceName, v) # others
             \<and> \<not> typeof_string v)"
      by blast
    with a getSchemasFromServices_bad_service [of raw h defaultEndpoint defaultSchema]
    show False by simp
  qed
  then obtain ref where "schemaRef = JString ref" by (cases schemaRef) simp_all
  with a have e: "ownEntries (getProp raw ''services'') = (serviceName, JString ref) # others"
    by simp
  from a have p: "serviceName \<noteq> ''__proto__''" by simp
  from getSchemasFromServices_service [OF nn _ e p, of h defaultEndpoint defaultSchema] a
  show "\<exists>dep. schemas = [(serviceName, dep)]
         \<and> getProp dep ''engineKey'' = process_env_ENGINE_API_KEY h"
    by (auto simp: Let_def)
qed

text \<open>The theorem at a dependency that configures a key of its own, with and without the
  credential in the environment, and at a \<^verbatim>\<open>services\<close> shorthand.\<close>

theorem engineKey_environment_override_witness:
  "loadSchemaConfig host_with_key (JObject [(''engineKey'', JString ''configured'')]) False =
     Inr (JObject [(''engineKey'', JString ''service:env-key''), (''endpoint'', JUndefined)],
          JObject [(''engineKey'', JString ''configured'')])
   \<and> getProp (JObject [(''engineKey'', JString ''service:env-key''), (''endpoint'', JUndefined)])
        ''engineKey'' = JString ''service:env-key''
   \<and> loadSchemaConfig host_no_key (JObject [(''engineKey'', JString ''configured'')]) False =
     Inr (JObject [(''engineKey'', JString ''configured''), (''endpoint'', JUndefined)],
          JObject [(''engineKey'', JString ''configured'')])
   \<and> getProp (JObject [(''engineKey'', JString ''configured''), (''endpoint'', JUndefined)])
        ''engineKey'' = getProp (JObject [(''engineKey'', JString ''configured'')]) ''engineKey''
   \<and> (\<exists>dep.
        getSchemasFromServices host_with_key
          (JObject [(''services'', JObject [(''backend'', JString ''schema.json'')])]) True True =
          Inr [(''backend'', dep)]
        \<and> getProp dep ''engineKey'' = JString ''service:env-key'')"
proof -
  let ?obj = "JObject [(''engineKey'', JString ''configured'')]"
  let ?svc = "JObject [(''services'', JObject [(''backend'', JString ''schema.json'')])]"
  have r1: "loadSchemaConfig host_with_key ?obj False =
     Inr (JObject [(''engineKey'', JString ''service:env-key''), (''endpoint'', JUndefined)], ?obj)"
    by (simp add: loadSchemaConfig_def loadEndpointConfig_def host_with_key_def js_or_def
        process_env_ENGINE_API_KEY_def)
  have r2: "loadSchemaConfig host_no_key ?obj False =
     Inr (JObject [(''engineKey'', JString ''configured''), (''endpoint'', JUndefined)], ?obj)"
    by (simp add: loadSchemaConfig_def loadEndpointConfig_def host_no_key_def host_with_key_def
        js_or_def process_env_ENGINE_API_KEY_def)
  have k1: "ENGINE_API_KEY host_with_key = Some ''service:env-key'' \<and> ''service:env-key'' \<noteq> []"
    by (simp add: host_with_key_def)
  have k2: "ENGINE_API_KEY host_no_key = None \<or> ENGINE_API_KEY host_no_key = Some []"
    by (simp add: host_no_key_def)
  have "\<exists>schemas. getSchemasFromServices host_with_key ?svc True True = Inr schemas"
    by (simp add: getSchemasFromServices_def isFile_def assign_computed_def)
  then obtain schemas where
    r3: "getSchemasFromServices host_with_key ?svc True True = Inr schemas" by (rule exE)
  have s3: "truthy (getProp ?svc ''services'') \<and> \<not> truthy (getProp ?svc ''clientSchema'')
      \<and> ownEntries (getProp ?svc ''services'') = (''backend'', JString ''schema.json'') # []
      \<and> ''backend'' \<noteq> ''__proto__''
      \<and> getSchemasFromServices host_with_key ?svc True True = Inr schemas"
    using r3 by simp
  have e3: "process_env_ENGINE_API_KEY host_with_key = JString ''service:env-key''"
    by (simp add: process_env_ENGINE_API_KEY_def host_with_key_def)
  note t1 = engineKey_environment_override [where h = host_with_key and obj = ?obj and defaultEndpoint = False]
  note t2 = engineKey_environment_override [where h = host_no_key and obj = ?obj and defaultEndpoint = False]
  note t3 = engineKey_environment_override [where h = host_with_key and raw = ?svc and defaultEndpoint = True and defaultSchema = True]
  from t1 r1 k1 have c1:
    "getProp (JObject [(''engineKey'', JString ''service:env-key''), (''endpoint'', JUndefined)])
        ''engineKey'' = JString ''service:env-key''" by blast
  from t2 r2 k2 have c2:
    "getProp (JObject [(''engineKey'', JString ''configured''), (''endpoint'', JUndefined)])
        ''engineKey'' = getProp ?obj ''engineKey''" by blast
  from t3 [THEN conjunct2, rule_format, OF s3]
  have "\<exists>dep. schemas = [(''backend'', dep)]
         \<and> getProp dep ''engineKey'' = process_env_ENGINE_API_KEY host_with_key" .
  with r3 e3 have c3: "\<exists>dep.
        getSchemasFromServices host_with_key ?svc True True = Inr [(''backend'', dep)]
        \<and> getProp dep ''engineKey'' = JString ''service:env-key''" by auto
  from r1 c1 r2 c2 c3 show ?thesis by (intro conjI)
qed

text \<open>The claim as written holds whenever the variable is set. Set to the empty string it is
  falsy, and \<^verbatim>\<open>process.env.ENGINE_API_KEY || obj.engineKey\<close> keeps the configured key.\<close>

theorem engineKey_empty_environment_counterexample:
  "ENGINE_API_KEY host_empty_key = Some ''''
   \<and> loadSchemaConfig host_empty_key (JObject [(''engineKey'', JString ''configured'')]) False =
       Inr (JObject [(''engineKey'', JString ''configured''), (''endpoint'', JUndefined)],
            JObject [(''engineKey'', JString ''configured'')])
   \<and> getProp (JObject [(''engineKey'', JString ''configured''), (''endpoint'', JUndefined)])
        ''engineKey'' \<noteq> JString ''''"
  by (simp add: loadSchemaConfig_def loadEndpointConfig_def host_empty_key_def host_with_key_def
      js_or_def process_env_ENGINE_API_KEY_def)

section \<open>Facts about the argument of loadEndpointConfig\<close>

lemma call_replace_Inr:
  "call_replace v pat rep = Inr w \<longleftrightarrow> (\<exists>s. v = JString s \<and> w = JString (string_replace pat rep s))"
  by (cases v) auto

lemma string_replace_nonempty: "u \<noteq> [] \<Longrightarrow> string_replace ''http'' ''ws'' u \<noteq> []"
  by (cases u) simp_all

lemma loadEndpointConfig_assigns:
  assumes "getProp (JObject ekvs) ''url'' = JString u" "u \<noteq> []"
    and "\<not> truthy (getProp (JObject ekvs) ''subscriptions'')"
  shows "loadEndpointConfig (JObject ekvs) b =
     Inr (JObject (AList.update ''subscriptions'' (JString (string_replace ''http'' ''ws'' u)) ekvs),
          JObject (AList.update ''subscriptions'' (JString (string_replace ''http'' ''ws'' u)) ekvs))"
  using assms by (simp add: loadEndpointConfig_def Let_def)

lemma loadEndpointConfig_argument:
  assumes "loadEndpointConfig ep b = Inr (loaded, ep')"
  shows "ep' = ep
     \<or> (\<exists>ekvs u. ep = JObject ekvs \<and> getProp ep ''url'' = JString u \<and> u \<noteq> []
           \<and> \<not> truthy (getProp ep ''subscriptions'')
           \<and> ep' = setProp ep ''subscriptions'' (JString (string_replace ''http'' ''ws'' u))
           \<and> loaded = ep')"
proof (cases ep)
  case (JObject ekvs)
  with assms show ?thesis
    by (auto simp: loadEndpointConfig_def Let_def call_replace_Inr
        split: if_splits sum.splits)
qed (use assms in \<open>auto simp: loadEndpointConfig_def Let_def split: if_splits sum.splits\<close>)

lemma loadEndpointConfig_unchanged:
  assumes "loadEndpointConfig ep b = Inr (loaded, ep')"
    and "(\<forall>ekvs. ep \<noteq> JObject ekvs) \<or> truthy (getProp ep ''subscriptions'')
         \<or> \<not> truthy (getProp ep ''url'')"
  shows "ep' = ep"
  using loadEndpointConfig_argument [OF assms(1)] assms(2) by auto

section \<open>What loadSchemaConfig leaves alone\<close>

text \<open>
  Claim C9, as amended. Whenever \<open>loadSchemaConfig\<close> returns on a raw dependency object, its
  result is an object in which every field other than \<^verbatim>\<open>endpoint\<close> and \<^verbatim>\<open>engineKey\<close>
  is the input's; the input keeps its keys in their order and every field other than
  \<^verbatim>\<open>endpoint\<close>. The input is modified only when its \<^verbatim>\<open>endpoint\<close> is an object with
  a non-empty string \<^verbatim>\<open>url\<close> and no truthy \<^verbatim>\<open>subscriptions\<close>, and whenever it is: that
  nested object is used, not copied, so in the input it gains \<^verbatim>\<open>subscriptions\<close> (the
  \<^verbatim>\<open>url\<close> with its first \<^verbatim>\<open>http\<close> replaced by \<^verbatim>\<open>ws\<close>), and the result holds the same
  object. When the endpoint is not an object, or has a truthy \<^verbatim>\<open>subscriptions\<close>, or has no
  truthy \<^verbatim>\<open>url\<close>, the input is unmodified.
\<close>

theorem loadSchemaConfig_frame:
  assumes "loadSchemaConfig h (JObject kvs) defaultEndpoint = Inr (r, obj')"
  shows "(\<exists>rkvs. r = JObject rkvs
            \<and> (\<forall>k. k \<noteq> ''endpoint'' \<and> k \<noteq> ''engineKey'' \<longrightarrow> map_of rkvs k = map_of kvs k))
       \<and> (\<exists>kvs'. obj' = JObject kvs' \<and> map fst kvs' = map fst kvs
            \<and> (\<forall>k. k \<noteq> ''endpoint'' \<longrightarrow> map_of kvs' k = map_of kvs k))
       \<and> (obj' \<noteq> JObject kvs \<longrightarrow>
            (\<exists>ekvs u. map_of kvs ''endpoint'' = Some (JObject ekvs)
               \<and> getProp (JObject ekvs) ''url'' = JString u \<and> u \<noteq> []
               \<and> \<not> truthy (getProp (JObject ekvs) ''subscriptions'')
               \<and> getProp obj' ''endpoint'' =
                   setProp (JObject ekvs) ''subscriptions''
                     (JString (string_replace ''http'' ''ws'' u))
               \<and> getProp r ''endpoint'' = getProp obj' ''endpoint''))
       \<and> ((\<forall>ekvs. map_of kvs ''endpoint'' \<noteq> Some (JObject ekvs))
            \<or> truthy (getProp (getProp (JObject kvs) ''endpoint'') ''subscriptions'')
            \<or> \<not> truthy (getProp (getProp (JObject kvs) ''endpoint'') ''url'')
          \<longrightarrow> obj' = JObject kvs)
       \<and> (\<forall>ekvs u. map_of kvs ''endpoint'' = Some (JObject ekvs)
               \<and> getProp (JObject ekvs) ''url'' = JString u \<and> u \<noteq> []
               \<and> \<not> truthy (getProp (JObject ekvs) ''subscriptions'')
          \<longrightarrow> obj' = JObject (AList.update ''endpoint''
                               (JObject (AList.update ''subscriptions''
                                  (JString (string_replace ''http'' ''ws'' u)) ekvs)) kvs)
            \<and> obj' \<noteq> JObject kvs
            \<and> getProp r ''endpoint'' =
                 JObject (AList.update ''subscriptions''
                    (JString (string_replace ''http'' ''ws'' u)) ekvs))"
proof -
  let ?ep = "getProp (JObject kvs) ''endpoint''"
  from assms obtain loaded ep' where
    le: "loadEndpointConfig ?ep (\<not> truthy (getProp (JObject kvs) ''engineKey'') \<and> defaultEndpoint)
           = Inr (loaded, ep')"
    and r: "r = setProp (setProp (JObject kvs) ''endpoint'' loaded) ''engineKey''
                 (js_or (process_env_ENGINE_API_KEY h) (getProp (JObject kvs) ''engineKey''))"
    and o: "obj' = (if ep' = ?ep then JObject kvs else setProp (JObject kvs) ''endpoint'' ep')"
    by (auto simp: loadSchemaConfig_def bindE_Inr_iff split: prod.splits)
  note arg = loadEndpointConfig_argument [OF le]
  have 1: "\<exists>rkvs. r = JObject rkvs
            \<and> (\<forall>k. k \<noteq> ''endpoint'' \<and> k \<noteq> ''engineKey'' \<longrightarrow> map_of rkvs k = map_of kvs k)"
    using r by (simp add: map_of_update)
  have present: "''endpoint'' \<in> set (map fst kvs)" if "ep' \<noteq> ?ep"
  proof -
    from arg that obtain ekvs where "?ep = JObject ekvs" by blast
    then have "map_of kvs ''endpoint'' = Some (JObject ekvs)" by (auto split: option.splits)
    then have "(''endpoint'', JObject ekvs) \<in> set kvs" by (rule map_of_SomeD)
    then show ?thesis by force
  qed
  have 2: "\<exists>kvs'. obj' = JObject kvs' \<and> map fst kvs' = map fst kvs
            \<and> (\<forall>k. k \<noteq> ''endpoint'' \<longrightarrow> map_of kvs' k = map_of kvs k)"
    using o present by (cases "ep' = ?ep") (simp_all add: map_of_update update_keys)
  have 3: "obj' \<noteq> JObject kvs \<longrightarrow>
            (\<exists>ekvs u. map_of kvs ''endpoint'' = Some (JObject ekvs)
               \<and> getProp (JObject ekvs) ''url'' = JString u \<and> u \<noteq> []
               \<and> \<not> truthy (getProp (JObject ekvs) ''subscriptions'')
               \<and> getProp obj' ''endpoint'' =
                   setProp (JObject ekvs) ''subscriptions''
                     (JString (string_replace ''http'' ''ws'' u))
               \<and> getProp r ''endpoint'' = getProp obj' ''endpoint'')"
  proof
    assume "obj' \<noteq> JObject kvs"
    with o have ne: "ep' \<noteq> ?ep" by auto
    with arg obtain ekvs u where e: "?ep = JObject ekvs" "getProp ?ep ''url'' = JString u" "u \<noteq> []"
      "\<not> truthy (getProp ?ep ''subscriptions'')"
      "ep' = setProp ?ep ''subscriptions'' (JString (string_replace ''http'' ''ws'' u))"
      "loaded = ep'" by blast
    from e(1) have m: "map_of kvs ''endpoint'' = Some (JObject ekvs)"
      by (auto split: option.splits)
    have "getProp obj' ''endpoint'' = ep'" using o ne by (simp add: map_of_update)
    moreover have "getProp r ''endpoint'' = loaded" using r by (simp add: map_of_update)
    ultimately show "\<exists>ekvs u. map_of kvs ''endpoint'' = Some (JObject ekvs)
               \<and> getProp (JObject ekvs) ''url'' = JString u \<and> u \<noteq> []
               \<and> \<not> truthy (getProp (JObject ekvs) ''subscriptions'')
               \<and> getProp obj' ''endpoint'' =
                   setProp (JObject ekvs) ''subscriptions''
                     (JString (string_replace ''http'' ''ws'' u))
               \<and> getProp r ''endpoint'' = getProp obj' ''endpoint''"
      using e m by (intro exI [of _ ekvs] exI [of _ u]) simp
  qed
  have 4: "(\<forall>ekvs. map_of kvs ''endpoint'' \<noteq> Some (JObject ekvs))
            \<or> truthy (getProp ?ep ''subscriptions'') \<or> \<not> truthy (getProp ?ep ''url'')
          \<longrightarrow> obj' = JObject kvs"
  proof
    assume c: "(\<forall>ekvs. map_of kvs ''endpoint'' \<noteq> Some (JObject ekvs))
            \<or> truthy (getProp ?ep ''subscriptions'') \<or> \<not> truthy (getProp ?ep ''url'')"
    have "(\<forall>ekvs. ?ep \<noteq> JObject ekvs) \<or> truthy (getProp ?ep ''subscriptions'')
         \<or> \<not> truthy (getProp ?ep ''url'')"
      using c by (auto split: option.splits)
    from loadEndpointConfig_unchanged [OF le this] o show "obj' = JObject kvs" by simp
  qed
  have 5: "\<forall>ekvs u. map_of kvs ''endpoint'' = Some (JObject ekvs)
               \<and> getProp (JObject ekvs) ''url'' = JString u \<and> u \<noteq> []
               \<and> \<not> truthy (getProp (JObject ekvs) ''subscriptions'')
          \<longrightarrow> obj' = JObject (AList.update ''endpoint''
                               (JObject (AList.update ''subscriptions''
                                  (JString (string_replace ''http'' ''ws'' u)) ekvs)) kvs)
            \<and> obj' \<noteq> JObject kvs
            \<and> getProp r ''endpoint'' =
                 JObject (AList.update ''subscriptions''
                    (JString (string_replace ''http'' ''ws'' u)) ekvs)"
  proof (intro allI impI)
    fix ekvs u
    assume h: "map_of kvs ''endpoint'' = Some (JObject ekvs)
               \<and> getProp (JObject ekvs) ''url'' = JString u \<and> u \<noteq> []
               \<and> \<not> truthy (getProp (JObject ekvs) ''subscriptions'')"
    let ?new = "JObject (AList.update ''subscriptions''
                  (JString (string_replace ''http'' ''ws'' u)) ekvs)"
    from h have ep: "?ep = JObject ekvs" by simp
    from h have "loadEndpointConfig (JObject ekvs)
        (\<not> truthy (getProp (JObject kvs) ''engineKey'') \<and> defaultEndpoint) = Inr (?new, ?new)"
      by (intro loadEndpointConfig_assigns) simp_all
    moreover from le have "loadEndpointConfig (JObject ekvs)
        (\<not> truthy (getProp (JObject kvs) ''engineKey'') \<and> defaultEndpoint) = Inr (loaded, ep')"
      unfolding ep .
    ultimately have "Inr (loaded, ep') = (Inr (?new, ?new) :: error + jsval \<times> jsval)"
      by (simp only:)
    then have l: "loaded = ?new" "ep' = ?new" by simp_all
    from h have w: "truthy (JString (string_replace ''http'' ''ws'' u))"
      by (simp add: string_replace_nonempty)
    have "getProp ?new ''subscriptions'' = JString (string_replace ''http'' ''ws'' u)"
      by (simp add: map_of_update)
    with w h have ne: "?new \<noteq> JObject ekvs" by auto
    with o l ep have o': "obj' = JObject (AList.update ''endpoint'' ?new kvs)" by simp
    have "map_of (AList.update ''endpoint'' ?new kvs) ''endpoint'' \<noteq> map_of kvs ''endpoint''"
      using h ne by (simp add: map_of_update)
    then have "JObject (AList.update ''endpoint'' ?new kvs) \<noteq> JObject kvs" by auto
    moreover have "getProp r ''endpoint'' = ?new" using r l by (simp add: map_of_update)
    ultimately show "obj' = JObject (AList.update ''endpoint'' ?new kvs)
            \<and> obj' \<noteq> JObject kvs \<and> getProp r ''endpoint'' = ?new"
      using o' by simp
  qed
  from 1 2 3 4 5 show ?thesis by (intro conjI)
qed
text \<open>The theorem at a dependency whose endpoint is an object (which gains
  \<^verbatim>\<open>subscriptions\<close>) and at one whose endpoint is a string (which stays as it was).\<close>

theorem loadSchemaConfig_frame_witness:
  "loadSchemaConfig host_no_key
     (JObject [(''schema'', JString ''schema.json''),
               (''endpoint'', JObject [(''url'', JString ''http://x.io/graphql'')]),
               (''extends'', JString ''base'')]) False =
     Inr (JObject [(''schema'', JString ''schema.json''),
                   (''endpoint'', JObject [(''url'', JString ''http://x.io/graphql''),
                                           (''subscriptions'', JString ''ws://x.io/graphql'')]),
                   (''extends'', JString ''base''),
                   (''engineKey'', JUndefined)],
          JObject [(''schema'', JString ''schema.json''),
                   (''endpoint'', JObject [(''url'', JString ''http://x.io/graphql''),
                                           (''subscriptions'', JString ''ws://x.io/graphql'')]),
                   (''extends'', JString ''base'')])
   \<and> map_of [(''schema'', JString ''schema.json''),
              (''endpoint'', JObject [(''url'', JString ''http://x.io/graphql''),
                                      (''subscriptions'', JString ''ws://x.io/graphql'')]),
              (''extends'', JString ''base''),
              (''engineKey'', JUndefined)] ''extends'' = Some (JString ''base'')
   \<and> (\<exists>u. getProp (JObject [(''url'', JString ''http://x.io/graphql'')]) ''url'' = JString u
          \<and> u \<noteq> [])
   \<and> loadSchemaConfig host_no_key
        (JObject [(''endpoint'', JString ''http://y.io''), (''clientSide'', JBool False)]) False =
      Inr (JObject [(''endpoint'', JObject [(''url'', JString ''http://y.io''),
                                            (''subscriptions'', JString ''ws://y.io'')]),
                    (''clientSide'', JBool False),
                    (''engineKey'', JUndefined)],
           JObject [(''endpoint'', JString ''http://y.io''), (''clientSide'', JBool False)])
   \<and> JObject [(''schema'', JString ''schema.json''),
               (''endpoint'', JObject [(''url'', JString ''http://x.io/graphql''),
                                       (''subscriptions'', JString ''ws://x.io/graphql'')]),
               (''extends'', JString ''base'')] =
       JObject (AList.update ''endpoint''
         (JObject (AList.update ''subscriptions''
            (JString (string_replace ''http'' ''ws'' ''http://x.io/graphql''))
            [(''url'', JString ''http://x.io/graphql'')]))
         [(''schema'', JString ''schema.json''),
          (''endpoint'', JObject [(''url'', JString ''http://x.io/graphql'')]),
          (''extends'', JString ''base'')])
   \<and> JObject [(''schema'', JString ''schema.json''),
               (''endpoint'', JObject [(''url'', JString ''http://x.io/graphql''),
                                       (''subscriptions'', JString ''ws://x.io/graphql'')]),
               (''extends'', JString ''base'')]
     \<noteq> JObject [(''schema'', JString ''schema.json''),
                 (''endpoint'', JObject [(''url'', JString ''http://x.io/graphql'')]),
                 (''extends'', JString ''base'')]"
proof -
  let ?kvs1 = "[(''schema'', JString ''schema.json''),
               (''endpoint'', JObject [(''url'', JString ''http://x.io/graphql'')]),
               (''extends'', JString ''base'')]"
  let ?r1 = "[(''schema'', JString ''schema.json''),
              (''endpoint'', JObject [(''url'', JString ''http://x.io/graphql''),
                                      (''subscriptions'', JString ''ws://x.io/graphql'')]),
              (''extends'', JString ''base''),
              (''engineKey'', JUndefined)]"
  let ?o1 = "[(''schema'', JString ''schema.json''),
              (''endpoint'', JObject [(''url'', JString ''http://x.io/graphql''),
                                      (''subscriptions'', JString ''ws://x.io/graphql'')]),
              (''extends'', JString ''base'')]"
  let ?kvs2 = "[(''endpoint'', JString ''http://y.io''), (''clientSide'', JBool False)]"
  let ?r2 = "[(''endpoint'', JObject [(''url'', JString ''http://y.io''),
                                            (''subscriptions'', JString ''ws://y.io'')]),
                    (''clientSide'', JBool False),
                    (''engineKey'', JUndefined)]"
  have e1: "loadSchemaConfig host_no_key (JObject ?kvs1) False = Inr (JObject ?r1, JObject ?o1)"
    by (simp add: loadSchemaConfig_def loadEndpointConfig_def host_no_key_def host_with_key_def Let_def
        js_or_def process_env_ENGINE_API_KEY_def)
  have "\<exists>o2. loadSchemaConfig host_no_key (JObject ?kvs2) False = Inr (JObject ?r2, o2)"
    by (simp add: loadSchemaConfig_def loadEndpointConfig_def host_no_key_def host_with_key_def Let_def
        js_or_def process_env_ENGINE_API_KEY_def)
  then obtain o2 where e2: "loadSchemaConfig host_no_key (JObject ?kvs2) False = Inr (JObject ?r2, o2)"
    by (rule exE)
  note t1 = loadSchemaConfig_frame [OF e1]
  note t2 = loadSchemaConfig_frame [OF e2]
  from t1 [THEN conjunct1] obtain rkvs where
    rk: "JObject ?r1 = JObject rkvs"
      "\<forall>k. k \<noteq> ''endpoint'' \<and> k \<noteq> ''engineKey'' \<longrightarrow> map_of rkvs k = map_of ?kvs1 k"
    by blast
  have k: "''extends'' \<noteq> ''endpoint'' \<and> ''extends'' \<noteq> ''engineKey''" by simp
  from rk(2) [rule_format, OF k] have "map_of rkvs ''extends'' = map_of ?kvs1 ''extends''" .
  moreover from rk(1) have "rkvs = ?r1" by simp
  ultimately have c1: "map_of ?r1 ''extends'' = Some (JString ''base'')" by simp
  have changed: "JObject ?o1 \<noteq> JObject ?kvs1" by simp
  from t1 [THEN conjunct2, THEN conjunct2, THEN conjunct1, rule_format, OF changed]
  obtain ekvs u where eu: "map_of ?kvs1 ''endpoint'' = Some (JObject ekvs)"
    "getProp (JObject ekvs) ''url'' = JString u" "u \<noteq> []" by blast
  from eu(1) have "ekvs = [(''url'', JString ''http://x.io/graphql'')]" by simp
  with eu(2,3) have c2: "\<exists>u. getProp (JObject [(''url'', JString ''http://x.io/graphql'')]) ''url'' = JString u
          \<and> u \<noteq> []" by (intro exI [of _ u]) (simp only: simp_thms)
  have "(\<forall>ekvs. map_of ?kvs2 ''endpoint'' \<noteq> Some (JObject ekvs))
            \<or> truthy (getProp (getProp (JObject ?kvs2) ''endpoint'') ''subscriptions'')
            \<or> \<not> truthy (getProp (getProp (JObject ?kvs2) ''endpoint'') ''url'')" by simp
  from t2 [THEN conjunct2, THEN conjunct2, THEN conjunct2, THEN conjunct1, rule_format, OF this]
  have "o2 = JObject ?kvs2" .
  with e2 have c3: "loadSchemaConfig host_no_key (JObject ?kvs2) False
      = Inr (JObject ?r2, JObject ?kvs2)" by simp
  have "map_of ?kvs1 ''endpoint'' = Some (JObject [(''url'', JString ''http://x.io/graphql'')])
      \<and> getProp (JObject [(''url'', JString ''http://x.io/graphql'')]) ''url''
          = JString ''http://x.io/graphql''
      \<and> ''http://x.io/graphql'' \<noteq> []
      \<and> \<not> truthy (getProp (JObject [(''url'', JString ''http://x.io/graphql'')])
                     ''subscriptions'')" by simp
  note t5 = t1 [THEN conjunct2, THEN conjunct2, THEN conjunct2, THEN conjunct2, rule_format, OF this]
  from t5 [THEN conjunct1] t5 [THEN conjunct2, THEN conjunct1]
  have c4: "JObject ?o1 =
        JObject (AList.update ''endpoint''
          (JObject (AList.update ''subscriptions''
             (JString (string_replace ''http'' ''ws'' ''http://x.io/graphql''))
             [(''url'', JString ''http://x.io/graphql'')])) ?kvs1)
      \<and> JObject ?o1 \<noteq> JObject ?kvs1"
    by (intro conjI)
  from e1 c1 c2 c3 c4 [THEN conjunct1] c4 [THEN conjunct2] show ?thesis by (intro conjI)
qed

text \<open>The claim as written has the nested endpoint object unmodified. After the call on
  \<^verbatim>\<open>{endpoint: {url: "http://x.io/graphql"}}\<close> the caller's object holds an endpoint with
  a \<^verbatim>\<open>subscriptions\<close> field it did not have.\<close>

theorem loadSchemaConfig_mutates_endpoint_counterexample:
  "loadSchemaConfig host_no_key
     (JObject [(''endpoint'', JObject [(''url'', JString ''http://x.io/graphql'')])]) False =
     Inr (JObject [(''endpoint'', JObject [(''url'', JString ''http://x.io/graphql''),
                                           (''subscriptions'', JString ''ws://x.io/graphql'')]),
                   (''engineKey'', JUndefined)],
          JObject [(''endpoint'', JObject [(''url'', JString ''http://x.io/graphql''),
                                           (''subscriptions'', JString ''ws://x.io/graphql'')])])
   \<and> JObject [(''endpoint'', JObject [(''url'', JString ''http://x.io/graphql''),
                                       (''subscriptions'', JString ''ws://x.io/graphql'')])]
     \<noteq> JObject [(''endpoint'', JObject [(''url'', JString ''http://x.io/graphql'')])]"
  by (simp add: loadSchemaConfig_def loadEndpointConfig_def host_no_key_def host_with_key_def Let_def
      js_or_def process_env_ENGINE_API_KEY_def)

section \<open>Facts about success\<close>

lemma getPropE_Inr: "obj \<noteq> JUndefined \<Longrightarrow> obj \<noteq> JNull \<Longrightarrow> getPropE obj k = Inr (getProp obj k)"
  by (cases obj) simp_all

lemma loadDocumentSet_succeeds:
  "obj \<noteq> JUndefined \<Longrightarrow> obj \<noteq> JNull \<Longrightarrow> \<exists>r. loadDocumentSet obj = Inr r"
  by (simp add: loadDocumentSet_def getPropE_Inr)

lemma mapE_loadDocumentSet_succeeds:
  "JUndefined \<notin> set qs \<Longrightarrow> JNull \<notin> set qs \<Longrightarrow> \<exists>rs. mapE loadDocumentSet qs = Inr rs"
proof (induction qs)
  case Nil
  then show ?case by simp
next
  case (Cons q qs)
  then have "q \<noteq> JUndefined" "q \<noteq> JNull" by auto
  from loadDocumentSet_succeeds [OF this] obtain r where "loadDocumentSet q = Inr r" by blast
  moreover from Cons obtain rs where "mapE loadDocumentSet qs = Inr rs" by auto
  ultimately show ?case by simp
qed

lemma loadEndpointConfig_succeeds:
  assumes "typeof_string ep \<or> \<not> truthy ep \<or> truthy (getProp ep ''subscriptions'')
         \<or> \<not> truthy (getProp ep ''url'') \<or> typeof_string (getProp ep ''url'')"
  shows "\<exists>r. loadEndpointConfig ep b = Inr r"
proof -
  have s: "typeof_string v \<Longrightarrow> \<exists>w. call_replace v pat rep = Inr w" for v pat rep
    by (cases v) simp_all
  show ?thesis
  proof (cases "typeof_string ep")
    case True
    then obtain u where "ep = JString u" by (cases ep) simp_all
    then show ?thesis by (simp add: loadEndpointConfig_def Let_def)
  next
    case False
    show ?thesis
    proof (cases "truthy ep")
      case True
      with False assms
      consider "truthy (getProp ep ''subscriptions'') \<or> \<not> truthy (getProp ep ''url'')"
        | "typeof_string (getProp ep ''url'')" by blast
      then show ?thesis
      proof cases
        case 1
        with False True show ?thesis by (auto simp: loadEndpointConfig_def Let_def)
      next
        case 2
        from s [OF this] obtain w where "call_replace (getProp ep ''url'') ''http'' ''ws'' = Inr w"
          by blast
        with False True show ?thesis by (simp add: loadEndpointConfig_def Let_def)
      qed
    next
      case nt: False
      with False show ?thesis by (simp add: loadEndpointConfig_def Let_def)
    qed
  qed
qed

lemma loadSchemaConfig_succeeds:
  assumes "obj \<noteq> JUndefined" "obj \<noteq> JNull"
    and "typeof_string (getProp obj ''endpoint'') \<or> \<not> truthy (getProp obj ''endpoint'')
         \<or> truthy (getProp (getProp obj ''endpoint'') ''subscriptions'')
         \<or> \<not> truthy (getProp (getProp obj ''endpoint'') ''url'')
         \<or> typeof_string (getProp (getProp obj ''endpoint'') ''url'')"
  shows "\<exists>r. loadSchemaConfig h obj d = Inr r"
proof -
  from loadEndpointConfig_succeeds [OF assms(3)] obtain r where
    "loadEndpointConfig (getProp obj ''endpoint'') (\<not> truthy (getProp obj ''engineKey'') \<and> d) = Inr r"
    by blast
  then show ?thesis
    by (cases r) (simp add: loadSchemaConfig_def getPropE_Inr [OF assms(1,2)])
qed

lemma getSchemasFromServices_succeeds:
  assumes "obj \<noteq> JUndefined" "obj \<noteq> JNull"
    and "\<not> truthy (getProp obj ''services'')
       \<or> (\<exists>serviceName ref others.
             ownEntries (getProp obj ''services'') = (serviceName, JString ref) # others)"
  shows "\<exists>schemas. getSchemasFromServices h obj dE dS = Inr schemas"
proof (cases "truthy (getProp obj ''services'')")
  case True
  with assms(3) obtain serviceName ref others where
    e: "ownEntries (getProp obj ''services'') = (serviceName, JString ref) # others" by blast
  show ?thesis
  proof (cases "serviceName = ''__proto__''")
    case True
    with e have "ownEntries (getProp obj ''services'') = (''__proto__'', JString ref) # others"
      by simp
    from getSchemasFromServices_proto [OF assms(1,2) \<open>truthy (getProp obj ''services'')\<close> this]
    show ?thesis by blast
  next
    case False
    from getSchemasFromServices_service [OF assms(1,2) \<open>truthy (getProp obj ''services'')\<close> e False]
    show ?thesis by blast
  qed
next
  case False
  from getSchemasFromServices_no_services [OF assms(1,2) False] show ?thesis by blast
qed

lemma loadConfig_succeeds:
  assumes "obj \<noteq> JUndefined" "obj \<noteq> JNull"
    and "\<not> truthy (getProp obj ''services'')
       \<or> (\<exists>serviceName ref others.
             ownEntries (getProp obj ''services'') = (serviceName, JString ref) # others)"
    and "isArray (getProp obj ''queries'') \<longrightarrow>
           JUndefined \<notin> set (elements (getProp obj ''queries''))
         \<and> JNull \<notin> set (elements (getProp obj ''queries''))"
  shows "\<exists>config. loadConfig h obj path folder dE dS = Inr config"
proof -
  from getSchemasFromServices_succeeds [OF assms(1-3)] obtain schemas where
    s: "getSchemasFromServices h obj dE dS = Inr schemas" by blast
  let ?qs = "if truthy (getProp obj ''queries'')
               then (if isArray (getProp obj ''queries'')
                     then elements (getProp obj ''queries'')
                     else [getProp obj ''queries''])
               else if length schemas = 1
                 then [JObject [(''schema'', first_key schemas)]]
               else []"
  have "JUndefined \<notin> set ?qs \<and> JNull \<notin> set ?qs"
    using assms(4) by auto
  then obtain rs where "mapE loadDocumentSet ?qs = Inr rs"
    using mapE_loadDocumentSet_succeeds by blast
  with s show ?thesis by (simp add: loadConfig_def)
qed

lemma services_shape_iff:
  "services_shape raw \<longleftrightarrow>
     (\<not> truthy (getProp raw ''services'')
       \<or> (\<exists>serviceName ref others.
             ownEntries (getProp raw ''services'') = (serviceName, JString ref) # others))"
  by (auto simp: services_shape_def split: list.splits prod.splits jsval.splits)

lemma queries_shape_iff:
  "queries_shape raw \<longleftrightarrow>
     (isArray (getProp raw ''queries'') \<longrightarrow>
           JUndefined \<notin> set (elements (getProp raw ''queries''))
         \<and> JNull \<notin> set (elements (getProp raw ''queries'')))"
  by (cases "getProp raw ''queries''")
     (auto simp: queries_shape_def not_nullish_def list_all_iff)

section \<open>Where the normalisers cannot fail\<close>

text \<open>
  Claim C8, as amended. The normalisers raise no error of their own; they apply defaults and
  succeed on raw input of the expected shapes. \<open>loadDocumentSet\<close> succeeds on every value but
  \<^verbatim>\<open>undefined\<close> and \<^verbatim>\<open>null\<close>. \<open>loadEndpointConfig\<close> succeeds on every string, every
  falsy value, and every value whose \<^verbatim>\<open>url\<close> is falsy or a string or whose
  \<^verbatim>\<open>subscriptions\<close> is truthy. \<open>loadSchemaConfig\<close> succeeds on every object whose
  \<^verbatim>\<open>endpoint\<close> is such a value. \<open>getSchemasFromServices\<close> succeeds on every raw object whose
  \<^verbatim>\<open>services\<close> is falsy or has a first entry with a string value, and \<open>loadConfig\<close> on
  every such object whose \<^verbatim>\<open>queries\<close>, when an array, holds no \<^verbatim>\<open>undefined\<close> or
  \<^verbatim>\<open>null\<close>.
\<close>

theorem normalisers_succeed:
  "(not_nullish doc \<longrightarrow> (\<exists>r. loadDocumentSet doc = Inr r))
 \<and> (endpoint_shape ep \<longrightarrow> (\<exists>r. loadEndpointConfig ep shouldDefaultURL = Inr r))
 \<and> (not_nullish dep \<and> endpoint_shape (getProp dep ''endpoint'') \<longrightarrow>
       (\<exists>r. loadSchemaConfig h dep defaultEndpoint = Inr r))
 \<and> (not_nullish raw \<and> services_shape raw \<longrightarrow>
       (\<exists>r. getSchemasFromServices h raw defaultEndpoint defaultSchema = Inr r))
 \<and> (not_nullish raw \<and> services_shape raw \<and> queries_shape raw \<longrightarrow>
       (\<exists>r. loadConfig h raw path folder defaultEndpoint defaultSchema = Inr r))"
proof (intro conjI impI)
  assume "not_nullish doc"
  then show "\<exists>r. loadDocumentSet doc = Inr r"
    by (simp add: not_nullish_def loadDocumentSet_succeeds)
next
  assume "endpoint_shape ep"
  then show "\<exists>r. loadEndpointConfig ep shouldDefaultURL = Inr r"
    unfolding endpoint_shape_def by (rule loadEndpointConfig_succeeds)
next
  assume "not_nullish dep \<and> endpoint_shape (getProp dep ''endpoint'')"
  then show "\<exists>r. loadSchemaConfig h dep defaultEndpoint = Inr r"
    unfolding endpoint_shape_def not_nullish_def
    by (intro loadSchemaConfig_succeeds) simp_all
next
  assume "not_nullish raw \<and> services_shape raw"
  then show "\<exists>r. getSchemasFromServices h raw defaultEndpoint defaultSchema = Inr r"
    unfolding services_shape_iff not_nullish_def
    by (intro getSchemasFromServices_succeeds) simp_all
next
  assume "not_nullish raw \<and> services_shape raw \<and> queries_shape raw"
  then show "\<exists>r. loadConfig h raw path folder defaultEndpoint defaultSchema = Inr r"
    unfolding services_shape_iff queries_shape_iff not_nullish_def
    by (intro loadConfig_succeeds) simp_all
qed

text \<open>The theorem at a document set given as a string, at an endpoint object, at a dependency
  with that endpoint, and at a raw configuration with a \<^verbatim>\<open>services\<close> shorthand and an array of
  \<^verbatim>\<open>queries\<close>.\<close>

theorem normalisers_succeed_witness:
  "(\<exists>r. loadDocumentSet (JString ''operations/*.graphql'') = Inr r)
 \<and> (\<exists>r. loadEndpointConfig (JObject [(''url'', JString ''https://x.io'')]) True = Inr r)
 \<and> (\<exists>r. loadSchemaConfig host_no_key
            (JObject [(''endpoint'', JObject [(''url'', JString ''https://x.io'')])]) True = Inr r)
 \<and> (\<exists>r. getSchemasFromServices host_no_key
            (JObject [(''services'', JObject [(''backend'', JString ''https://x.io'')]),
                      (''queries'', JArray [JObject [(''includes'', JString ''src/**'')]])])
            True True = Inr r)
 \<and> (\<exists>r. loadConfig host_no_key
            (JObject [(''services'', JObject [(''backend'', JString ''https://x.io'')]),
                      (''queries'', JArray [JObject [(''includes'', JString ''src/**'')]])])
            ''/project/apollo.config.js'' ''/project'' True True = Inr r)"
proof -
  let ?doc = "JString ''operations/*.graphql''"
  let ?ep = "JObject [(''url'', JString ''https://x.io'')]"
  let ?dep = "JObject [(''endpoint'', ?ep)]"
  let ?raw = "JObject [(''services'', JObject [(''backend'', JString ''https://x.io'')]),
                      (''queries'', JArray [JObject [(''includes'', JString ''src/**'')]])]"
  note t = normalisers_succeed [where doc = ?doc and ep = ?ep and dep = ?dep and raw = ?raw
      and h = host_no_key and shouldDefaultURL = True and defaultEndpoint = True
      and defaultSchema = True and path = "''/project/apollo.config.js''" and folder = "''/project''"]
  have 1: "not_nullish ?doc" by (simp add: not_nullish_def)
  have 2: "endpoint_shape ?ep" by (simp add: endpoint_shape_def)
  have 3: "not_nullish ?dep \<and> endpoint_shape (getProp ?dep ''endpoint'')"
    by (simp add: not_nullish_def endpoint_shape_def)
  have 4: "not_nullish ?raw \<and> services_shape ?raw"
    by (simp add: not_nullish_def services_shape_def)
  have 5: "not_nullish ?raw \<and> services_shape ?raw \<and> queries_shape ?raw"
    by (simp add: not_nullish_def services_shape_def queries_shape_def)
  from t [THEN conjunct1, rule_format, OF 1]
    t [THEN conjunct2, THEN conjunct1, rule_format, OF 2]
    t [THEN conjunct2, THEN conjunct2, THEN conjunct1, rule_format, OF 3]
    t [THEN conjunct2, THEN conjunct2, THEN conjunct2, THEN conjunct1, rule_format, OF 4]
    t [THEN conjunct2, THEN conjunct2, THEN conjunct2, THEN conjunct2, rule_format, OF 5]
  show ?thesis by (intro conjI)
qed

text \<open>The claim as written holds on every raw input, and names the empty \<^verbatim>\<open>services\<close>
  mapping. An empty object is truthy and has no entry to destructure: both
  \<open>getSchemasFromServices\<close> and \<open>loadConfig\<close> throw. So does \<open>loadDocumentSet\<close> on
  \<^verbatim>\<open>null\<close>, and \<open>loadEndpointConfig\<close> on a numeric \<^verbatim>\<open>url\<close>.\<close>

theorem empty_services_counterexample:
  "getSchemasFromServices host_no_key (JObject [(''services'', JObject [])]) True True
     = Inl TypeError
 \<and> loadConfig host_no_key (JObject [(''services'', JObject [])])
       ''/project/package.json'' ''/project'' True True = Inl TypeError
 \<and> loadDocumentSet JNull = Inl TypeError
 \<and> loadEndpointConfig (JObject [(''url'', JNum 4000)]) True = Inl TypeError"
  by (simp add: getSchemasFromServices_def loadConfig_def loadDocumentSet_def
      loadEndpointConfig_def)

section \<open>A single document set given for queries\<close>

text \<open>
  Claim C3, as amended. For the raw input \<^verbatim>\<open>{ queries: { includes: p } }\<close> with \<open>p\<close> any
  string (\<^verbatim>\<open>"operations/**/*.graphql"\<close>, say), \<open>loadConfig\<close> normalises \<^verbatim>\<open>queries\<close> into
  exactly \<^verbatim>\<open>[{schema: undefined, includes: [p], excludes: ["node_modules/**"]}]\<close>: the single
  object is wrapped into a one-element list and its string \<^verbatim>\<open>includes\<close> is promoted to a
  one-element list. This holds with the one schema \<^verbatim>\<open>default\<close> that \<^verbatim>\<open>defaultSchema\<close>
  synthesises and with no schema at all, so it does not depend on schema inference.
\<close>

theorem loadConfig_single_document_set:
  "\<exists>loaded.
     loadConfig h (JObject [(''queries'', JObject [(''includes'', JString p)])])
       path folder defaultEndpoint defaultSchema =
     Inr (JObject
       [(''configFile'', JString path),
        (''projectFolder'', JString folder),
        (''schemas'', JObject
           (if defaultSchema
            then [(''default'', JObject
                    [(''endpoint'', loaded),
                     (''engineKey'', js_or (process_env_ENGINE_API_KEY h) JUndefined)])]
            else [])),
        (''name'', JString (basename h folder)),
        (''queries'', JArray
           [JObject [(''schema'', JUndefined),
                     (''includes'', JArray [JString p]),
                     (''excludes'', JArray [JString ''node_modules/**''])]]),
        (''engineEndpoint'', JUndefined)])"
proof -
  let ?raw = "JObject [(''queries'', JObject [(''includes'', JString p)])]"
  have "?raw \<noteq> JUndefined" "?raw \<noteq> JNull" "\<not> truthy (getProp ?raw ''services'')"
    by simp_all
  from getSchemasFromServices_no_services [OF this, of h defaultEndpoint defaultSchema]
  obtain loaded where "getSchemasFromServices h ?raw defaultEndpoint defaultSchema =
      Inr (if defaultSchema
           then [(''default'', JObject
                   [(''endpoint'', loaded),
                    (''engineKey'', js_or (process_env_ENGINE_API_KEY h) JUndefined)])]
           else [])"
    by (auto simp: Let_def)
  then show ?thesis
    by (intro exI [of _ loaded]) (simp add: loadConfig_def loadDocumentSet_def)
qed

text \<open>The theorem at the pattern of the scenario, with the one schema \<^verbatim>\<open>default\<close>.\<close>

theorem loadConfig_single_document_set_witness:
  "\<exists>loaded.
     loadConfig host_no_key
       (JObject [(''queries'', JObject [(''includes'', JString ''operations/**/*.graphql'')])])
       ''/project/package.json'' ''/project'' True True =
     Inr (JObject
       [(''configFile'', JString ''/project/package.json''),
        (''projectFolder'', JString ''/project''),
        (''schemas'', JObject
           [(''default'', JObject [(''endpoint'', loaded), (''engineKey'', JUndefined)])]),
        (''name'', JString ''project''),
        (''queries'', JArray
           [JObject [(''schema'', JUndefined),
                     (''includes'', JArray [JString ''operations/**/*.graphql'']),
                     (''excludes'', JArray [JString ''node_modules/**''])]]),
        (''engineEndpoint'', JUndefined)])"
  using loadConfig_single_document_set [of host_no_key "''operations/**/*.graphql''"
      "''/project/package.json''" "''/project''" True True]
  by (simp add: host_no_key_def host_with_key_def js_or_def process_env_ENGINE_API_KEY_def)

text \<open>
  The claim as written gives the bare string \<^verbatim>\<open>"operations/**/*.graphql"\<close> for
  \<^verbatim>\<open>queries\<close>. \<open>loadConfig\<close> wraps the string itself into the list of raw document sets, and
  \<open>loadDocumentSet\<close> reads \<^verbatim>\<open>schema\<close>, \<^verbatim>\<open>includes\<close> and \<^verbatim>\<open>excludes\<close> off that string:
  the pattern is in none of them. (\<^verbatim>\<open>includes\<close> of a string is the method every string
  inherits, which is truthy and is kept as it is.)
\<close>

theorem loadConfig_bare_string_queries_counterexample:
  "loadConfig host_no_key (JObject [(''queries'', JString ''operations/**/*.graphql'')])
     ''/project/package.json'' ''/project'' True True =
   Inr (JObject
     [(''configFile'', JString ''/project/package.json''),
      (''projectFolder'', JString ''/project''),
      (''schemas'', JObject
         [(''default'', JObject
             [(''endpoint'', JObject
                 [(''url'', JString ''http://localhost:4000/graphql''),
                  (''subscriptions'', JString ''ws://localhost:4000/graphql'')]),
              (''engineKey'', JUndefined)])]),
      (''name'', JString ''project''),
      (''queries'', JArray
         [JObject [(''schema'', JUndefined),
                   (''includes'', JBuiltin ''String.prototype.includes''),
                   (''excludes'', JArray [JString ''node_modules/**''])]]),
      (''engineEndpoint'', JUndefined)])
 \<and> JBuiltin ''String.prototype.includes'' \<noteq> JArray [JString ''operations/**/*.graphql'']"
  by (simp add: loadConfig_def getSchemasFromServices_def loadSchemaConfig_def
      loadEndpointConfig_def loadDocumentSet_def host_no_key_def host_with_key_def
      js_or_def process_env_ENGINE_API_KEY_def Let_def)


section \<open>Facts about runs\<close>

lemma bindR_Diverged:
  "snd (bindR m f) = Diverged \<longleftrightarrow>
     snd m = Diverged \<or> (\<exists>x. snd m = Returned x \<and> snd (f x) = Diverged)"
  by (cases m; cases "snd m") (auto simp: bindR_def split: prod.splits)

lemma bindR_left_Diverged [simp]: "bindR (t, Diverged) f = (t, Diverged)"
  by (simp add: bindR_def)

lemma bindR_left_Threw [simp]: "bindR (t, Threw e) f = (t, Threw e)"
  by (simp add: bindR_def)

lemma bindR_left_Returned [simp]: "bindR (t, Returned x) f = (t @ fst (f x), snd (f x))"
  by (simp add: bindR_def split: prod.splits)

lemma callR_not_Diverged [simp]: "snd (callR c r) \<noteq> Diverged"
  by (cases r) (simp_all add: callR_def)

lemma returnR_not_Diverged [simp]: "snd (returnR x) \<noteq> Diverged"
  by (simp add: returnR_def)

lemma loadAsAST_not_Diverged [simp]: "snd (loadAsAST C d) \<noteq> Diverged"
  by (simp add: loadAsAST_def bindR_Diverged Let_def)

section \<open>Facts about resolveSchema\<close>

lemma resolveSchema_exhausts:
  "\<not> chain_ends stack config nm \<Longrightarrow> resolveSchema stack C config tag nm = ([], Threw RangeError)"
proof (induction stack arbitrary: nm tag)
  case 0
  then show ?case by simp
next
  case (Suc stack)
  from Suc.prems obtain r where r: "lookup_schema config nm = Some r" "truthy_str (ref_extends r)"
    and n: "\<not> chain_ends stack config (key_of (ref_extends r))"
    by (auto simp: extends_target_def split: option.splits if_splits)
  from Suc.IH [OF n] have "resolveSchema stack C config (pass_tag tag) (key_of (ref_extends r))
      = ([], Threw RangeError)" .
  with r show ?case by simp
qed

lemma resolveSchema_not_Diverged: "snd (resolveSchema stack C config tag nm) \<noteq> Diverged"
proof (induction stack arbitrary: nm tag)
  case 0
  then show ?case by simp
next
  case (Suc stack)
  show ?case
  proof (cases "lookup_schema config nm")
    case None
    then show ?thesis by simp
  next
    case (Some r)
    show ?thesis
    proof (cases "truthy_str (ref_extends r)")
      case True
      with Some Suc.IH show ?thesis by (simp add: bindR_Diverged)
    next
      case False
      with Some show ?thesis by (auto simp: bindR_Diverged split: option.splits)
    qed
  qed
qed

lemma resolveSchema_stack_independent:
  "chain_ends n config nm \<Longrightarrow> n \<le> stack
     \<Longrightarrow> resolveSchema stack C config tag nm = resolveSchema n C config tag nm"
proof (induction n arbitrary: stack nm tag)
  case 0
  then show ?case by simp
next
  case (Suc n)
  from Suc.prems(2) obtain s where s: "stack = Suc s" "n \<le> s" by (cases stack) simp_all
  show ?case
  proof (cases "lookup_schema config nm")
    case None
    with s show ?thesis by simp
  next
    case (Some r)
    show ?thesis
    proof (cases "truthy_str (ref_extends r)")
      case True
      with Some Suc.prems(1) have "chain_ends n config (key_of (ref_extends r))"
        by (simp add: extends_target_def)
      from Suc.IH [OF this s(2)]
      have "resolveSchema s C config (pass_tag tag) (key_of (ref_extends r))
          = resolveSchema n C config (pass_tag tag) (key_of (ref_extends r))" .
      with Some True s show ?thesis by simp
    next
      case False
      with Some s show ?thesis by simp
    qed
  qed
qed

lemma chain_ends_follow:
  "follow k config nm = Some nm' \<Longrightarrow> chain_ends n config nm
     \<Longrightarrow> k < n \<and> chain_ends (n - k) config nm'"
proof (induction k arbitrary: n nm)
  case 0
  then show ?case by (cases n) simp_all
next
  case (Suc k)
  from Suc.prems(1) obtain m where m: "extends_target config nm = Some m"
    "follow k config m = Some nm'" by (auto split: option.splits)
  from Suc.prems(2) m(1) obtain n0 where n0: "n = Suc n0" "chain_ends n0 config m"
    by (cases n) simp_all
  from Suc.IH [OF m(2) n0(2)] n0(1) show ?case by simp
qed

lemma on_cycle_never_ends: "on_cycle config nm \<Longrightarrow> \<not> chain_ends n config nm"
proof (induction n rule: less_induct)
  case (less n)
  from less.prems obtain k where k: "0 < k" "follow k config nm = Some nm"
    by (auto simp: on_cycle_def)
  show ?case
  proof
    assume "chain_ends n config nm"
    from chain_ends_follow [OF k(2) this] have "k < n" "chain_ends (n - k) config nm" by simp_all
    moreover from k(1) \<open>k < n\<close> have "n - k < n" by simp
    ultimately show False using less.IH less.prems by blast
  qed
qed

lemma example_on_cycle: "on_cycle (example_config docs) ''A''"
proof -
  have "follow (Suc (Suc 0)) (example_config docs) ''A'' = Some ''A''"
    by (simp add: extends_target_def lookup_schema_def example_config_def extending_def)
  then show ?thesis unfolding on_cycle_def by (intro exI [of _ "Suc (Suc 0)"]) simp
qed

section \<open>Cycles of extends references\<close>

text \<open>
  Claim C2, as amended. \<open>resolveSchema\<close> keeps no record of the names it has visited and has
  no error of its own for a cycle. For every config whose \<^verbatim>\<open>extends\<close> references form a
  cycle, \<open>resolveSchema\<close> on a name in the cycle recurses, calling no collaborator, until the
  call stack has no room left, and fails with the engine's \<^verbatim>\<open>RangeError\<close>, whatever room the
  stack has. \<open>resolveSchema\<close> terminates on every config: its run always ends, in a value or in
  an exception. When the chain of \<^verbatim>\<open>extends\<close> references from the name ends within the room
  the stack has, the run does not depend on that room; when it does not, the run fails with the
  \<^verbatim>\<open>RangeError\<close>.
\<close>

theorem resolveSchema_cycle:
  "(on_cycle config nm \<longrightarrow>
      (\<forall>stack. resolveSchema stack C config tag nm = ([], Threw RangeError)))
 \<and> (\<forall>stack. snd (resolveSchema stack C config tag nm) \<noteq> Diverged)
 \<and> (\<forall>n stack. chain_ends n config nm \<and> n \<le> stack \<longrightarrow>
       resolveSchema stack C config tag nm = resolveSchema n C config tag nm)
 \<and> (\<forall>stack. \<not> chain_ends stack config nm \<longrightarrow>
       resolveSchema stack C config tag nm = ([], Threw RangeError))"
proof (intro conjI impI allI)
  fix stack
  assume "on_cycle config nm"
  then have "\<not> chain_ends stack config nm" by (rule on_cycle_never_ends)
  then show "resolveSchema stack C config tag nm = ([], Threw RangeError)"
    by (rule resolveSchema_exhausts)
next
  fix stack
  show "snd (resolveSchema stack C config tag nm) \<noteq> Diverged"
    by (rule resolveSchema_not_Diverged)
next
  fix n stack
  assume "chain_ends n config nm \<and> n \<le> stack"
  then show "resolveSchema stack C config tag nm = resolveSchema n C config tag nm"
    by (intro resolveSchema_stack_independent) simp_all
next
  fix stack
  assume "\<not> chain_ends stack config nm"
  then show "resolveSchema stack C config tag nm = ([], Threw RangeError)"
    by (rule resolveSchema_exhausts)
qed

text \<open>The theorem at \<^verbatim>\<open>A\<close>, which lies on the cycle of the example, and at \<^verbatim>\<open>leaf\<close>, whose
  chain ends at \<^verbatim>\<open>base\<close> after two lookups: with room for two calls or for five the run is
  the same, with room for one it fails.\<close>

theorem resolveSchema_cycle_witness:
  "on_cycle (example_config []) ''A''
 \<and> (\<forall>stack. resolveSchema stack toy (example_config []) None ''A'' = ([], Threw RangeError))
 \<and> snd (resolveSchema 5 toy (example_config []) None ''leaf'') \<noteq> Diverged
 \<and> chain_ends 2 (example_config []) ''leaf''
 \<and> resolveSchema 5 toy (example_config []) None ''leaf''
     = resolveSchema 2 toy (example_config []) None ''leaf''
 \<and> resolveSchema 2 toy (example_config []) None ''leaf''
     = ([LoadSchema None, BuildClientSchema, LoadQueryDocuments [None], ExtendSchema],
        Returned (Some ''schema of introspection + ast(undefined)''))
 \<and> \<not> chain_ends 1 (example_config []) ''leaf''
 \<and> resolveSchema 1 toy (example_config []) None ''leaf'' = ([], Threw RangeError)"
proof -
  note t = resolveSchema_cycle [of "example_config []" _ toy None]
  have c: "on_cycle (example_config []) ''A''" by (rule example_on_cycle)
  have e: "chain_ends 2 (example_config []) ''leaf''"
    by (simp add: numeral_2_eq_2 extends_target_def lookup_schema_def example_config_def
        extending_def)
  have e': "chain_ends 2 (example_config []) ''leaf'' \<and> (2::nat) \<le> 5"
    using e by simp
  have n: "\<not> chain_ends 1 (example_config []) ''leaf''"
    by (simp add: extends_target_def lookup_schema_def example_config_def extending_def)
  from t [of "''A''", THEN conjunct1, rule_format, OF c]
  have 1: "\<forall>stack. resolveSchema stack toy (example_config []) None ''A'' = ([], Threw RangeError)"
    by (rule allI)
  from t [of "''leaf''", THEN conjunct2, THEN conjunct1, rule_format, of 5]
  have 2: "snd (resolveSchema 5 toy (example_config []) None ''leaf'') \<noteq> Diverged" .
  from t [of "''leaf''", THEN conjunct2, THEN conjunct2, THEN conjunct1, rule_format, OF e']
  have 3: "resolveSchema 5 toy (example_config []) None ''leaf''
     = resolveSchema 2 toy (example_config []) None ''leaf''" .
  have 4: "resolveSchema 2 toy (example_config []) None ''leaf''
     = ([LoadSchema None, BuildClientSchema, LoadQueryDocuments [None], ExtendSchema],
        Returned (Some ''schema of introspection + ast(undefined)''))"
    by (simp add: numeral_2_eq_2 lookup_schema_def example_config_def extending_def toy_def
        loadAsAST_def callR_def returnR_def pass_tag_def inherited_def object_prototype_names_def)
  from t [of "''leaf''", THEN conjunct2, THEN conjunct2, THEN conjunct2, rule_format, OF n]
  have 5: "resolveSchema 1 toy (example_config []) None ''leaf'' = ([], Threw RangeError)" .
  from c 1 2 e 3 4 n 5 show ?thesis by (intro conjI)
qed

text \<open>The claim as written has \<open>resolveSchema\<close> raise a cycle error of its own. With \<^verbatim>\<open>A\<close>
  extending \<^verbatim>\<open>B\<close> and \<^verbatim>\<open>B\<close> extending \<^verbatim>\<open>A\<close>, the run on \<^verbatim>\<open>A\<close> ends in the engine's
  \<^verbatim>\<open>RangeError\<close>, thrown where the stack is exhausted, whatever room the stack has.\<close>

theorem resolveSchema_cycle_counterexample:
  "\<forall>stack. resolveSchema stack toy (example_config []) None ''A'' = ([], Threw RangeError)"
  using resolveSchema_exhausts [OF on_cycle_never_ends [OF example_on_cycle]] by blast

section \<open>Facts about resolveDocumentSets\<close>

lemma bindR_calls: "set (fst (bindR m f)) \<subseteq> set (fst m) \<union> (\<Union>x. set (fst (f x)))"
proof (cases m)
  case (Pair t out)
  then show ?thesis by (cases out) auto
qed

lemma bindR_Returned:
  "snd (bindR m f) = Returned y \<longleftrightarrow> (\<exists>x. snd m = Returned x \<and> snd (f x) = Returned y)"
  by (cases m; cases "snd m") (auto simp: bindR_def split: prod.splits)


lemma returnR_simps [simp]: "fst (returnR x) = []" "snd (returnR x) = Returned x"
  by (simp_all add: returnR_def)

lemma callR_fst [simp]: "fst (callR c r) = [c]"
  by (simp add: callR_def)

lemma flatMap_glob_calls: "c \<in> set (fst (flatMap_glob C cwd is)) \<Longrightarrow> \<not> schema_call c"
proof (induction "is")
  case Nil
  then show ?case by simp
next
  case (Cons i rest)
  from Cons.prems bindR_calls
  have "c \<in> set (fst (callR (GlobSync i cwd) (glob_sync C i cwd)))
      \<or> (\<exists>found. c \<in> set (fst (bindR (flatMap_glob C cwd rest) (\<lambda>more. returnR (found @ more)))))"
    by fastforce
  then show ?case
  proof
    assume "c \<in> set (fst (callR (GlobSync i cwd) (glob_sync C i cwd)))"
    then show ?thesis by simp
  next
    assume "\<exists>found. c \<in> set (fst (bindR (flatMap_glob C cwd rest) (\<lambda>more. returnR (found @ more))))"
    then obtain found where
      "c \<in> set (fst (bindR (flatMap_glob C cwd rest) (\<lambda>more. returnR (found @ more))))" by blast
    with bindR_calls have "c \<in> set (fst (flatMap_glob C cwd rest))" by fastforce
    then show ?thesis by (rule Cons.IH)
  qed
qed


lemma flatMap_glob_not_Diverged [simp]: "snd (flatMap_glob C cwd is) \<noteq> Diverged"
  by (induction "is") (simp_all add: bindR_Diverged)

lemma promise_all_calls: "set (fst (promise_all rs)) \<subseteq> (\<Union>r \<in> set rs. set (fst r))"
proof (induction rs rule: promise_all.induct)
  case 1
  then show ?case by simp
next
  case (2 t rest)
  then show ?case by simp
next
  case (3 t e rest)
  then show ?case by (auto split: prod.splits outcome.splits)
next
  case (4 t x rest)
  then show ?case by (auto split: prod.splits outcome.splits)
qed

lemma promise_all_Returned:
  "snd (promise_all rs) = Returned xs \<Longrightarrow> list_all2 (\<lambda>r x. snd r = Returned x) rs xs"
proof (induction rs arbitrary: xs rule: promise_all.induct)
  case 1
  then show ?case by simp
next
  case (2 t rest)
  then show ?case by simp
next
  case (3 t e rest)
  then show ?case by (auto split: prod.splits outcome.splits)
next
  case (4 t x rest)
  then show ?case by (auto split: prod.splits outcome.splits)
qed


lemma bindR_returnR [simp]: "bindR (returnR x) f = f x"
  by (simp add: returnR_def)

lemma resolveDocumentSet_without_schema:
  "resolveDocumentSet fuel stack C config False tag doc =
     (case schemaPathsLoop fuel config (lookup_schema config (key_of (doc_schema doc))) [] of
        None \<Rightarrow> ([], Diverged)
      | Some schemaPaths \<Rightarrow>
          bindR (flatMap_glob C (projectFolder config) (doc_includes doc)) (\<lambda>found.
            returnR
              \<lparr>resolved_schema = None,
               resolved_endpoint =
                 (case (if truthy_str (doc_schema doc)
                        then lookup_schema config (key_of (doc_schema doc)) else None) of
                    None \<Rightarrow> None | Some r \<Rightarrow> ref_endpoint r),
               resolved_engineKey =
                 (case (if truthy_str (doc_schema doc)
                        then lookup_schema config (key_of (doc_schema doc)) else None) of
                    None \<Rightarrow> None | Some r \<Rightarrow> ref_engineKey r),
               documentPaths =
                 filter (not_excluded C config (doc_excludes doc @ schemaPaths)) found,
               originalSet = doc\<rparr>))"
  by (simp add: resolveDocumentSet_def Let_def not_excluded_def [abs_def] split: option.splits)

lemma resolveDocumentSet_without_schema_calls:
  assumes "c \<in> set (fst (resolveDocumentSet fuel stack C config False tag doc))"
  shows "\<not> schema_call c"
proof (cases "schemaPathsLoop fuel config (lookup_schema config (key_of (doc_schema doc))) []")
  case None
  with assms show ?thesis by (simp add: resolveDocumentSet_without_schema)
next
  case (Some schemaPaths)
  with assms bindR_calls
  have "c \<in> set (fst (flatMap_glob C (projectFolder config) (doc_includes doc)))"
    by (fastforce simp: resolveDocumentSet_without_schema)
  then show ?thesis by (rule flatMap_glob_calls)
qed

lemma resolveDocumentSet_without_schema_result:
  assumes "snd (resolveDocumentSet fuel stack C config False tag doc) = Returned r"
  shows "resolved_schema r = None"
  using assms
  by (auto simp: resolveDocumentSet_without_schema bindR_Returned split: option.splits)

section \<open>Resolving document sets without their schema\<close>

text \<open>
  Claim C5. For every config and tag, and whatever the fuel, the room on the call stack and
  the collaborators, the run of
  \<open>resolveDocumentSets\<close> with \<^verbatim>\<open>needSchema = false\<close> makes no call that fetches an
  introspection result, loads or marks a tree, or builds or extends a schema object (its only
  calls expand glob patterns), and every document set it returns has no schema.
\<close>

theorem resolveDocumentSets_without_schema:
  "(\<forall>c \<in> set (fst (resolveDocumentSets fuel stack C config False tag)). \<not> schema_call c)
 \<and> (\<forall>sets. snd (resolveDocumentSets fuel stack C config False tag) = Returned sets \<longrightarrow>
       (\<forall>r \<in> set sets. resolved_schema r = None))"
proof (intro conjI ballI allI impI)
  fix c
  assume "c \<in> set (fst (resolveDocumentSets fuel stack C config False tag))"
  then have "c \<in> (\<Union>r \<in> set (map (resolveDocumentSet fuel stack C config False tag)
          (case queries config of None \<Rightarrow> [] | Some docs \<Rightarrow> docs)). set (fst r))"
    unfolding resolveDocumentSets_def by (rule subsetD [OF promise_all_calls])
  then obtain doc where "c \<in> set (fst (resolveDocumentSet fuel stack C config False tag doc))"
    by auto
  then show "\<not> schema_call c" by (rule resolveDocumentSet_without_schema_calls)
next
  fix sets r
  assume "snd (resolveDocumentSets fuel stack C config False tag) = Returned sets" and r: "r \<in> set sets"
  then have "list_all2 (\<lambda>run x. snd run = Returned x)
       (map (resolveDocumentSet fuel stack C config False tag)
          (case queries config of None \<Rightarrow> [] | Some docs \<Rightarrow> docs)) sets"
    unfolding resolveDocumentSets_def by (intro promise_all_Returned)
  with r obtain doc where "snd (resolveDocumentSet fuel stack C config False tag doc) = Returned r"
    by (auto simp: list_all2_conv_all_nth in_set_conv_nth)
  then show "resolved_schema r = None" by (rule resolveDocumentSet_without_schema_result)
qed

text \<open>The theorem at the example config with one document set that refers to \<^verbatim>\<open>leaf\<close>: the
  run makes one glob call and returns one document set, without a schema.\<close>

theorem resolveDocumentSets_without_schema_witness:
  "resolveDocumentSets 3 8 toy
     (example_config [\<lparr>doc_schema = Some ''leaf'', doc_includes = [''**''], doc_excludes = []\<rparr>])
     False (Some ''prod'') =
     ([GlobSync ''**'' ''/project''],
      Returned [\<lparr>resolved_schema = None, resolved_endpoint = None,
                 resolved_engineKey = Some ''key'',
                 documentPaths = [''/project/queries/a.graphql''],
                 originalSet =
                   \<lparr>doc_schema = Some ''leaf'', doc_includes = [''**''], doc_excludes = []\<rparr>\<rparr>])
 \<and> \<not> schema_call (GlobSync ''**'' ''/project'')
 \<and> resolved_schema
       \<lparr>resolved_schema = (None :: string option), resolved_endpoint = None,
        resolved_engineKey = Some ''key'',
        documentPaths = [''/project/queries/a.graphql''],
        originalSet =
          \<lparr>doc_schema = Some ''leaf'', doc_includes = [''**''], doc_excludes = []\<rparr>\<rparr> = None"
proof -
  let ?doc = "\<lparr>doc_schema = Some ''leaf'', doc_includes = [''**''], doc_excludes = []\<rparr>"
  let ?r = "\<lparr>resolved_schema = (None :: string option), resolved_endpoint = None,
        resolved_engineKey = Some ''key'',
        documentPaths = [''/project/queries/a.graphql''],
        originalSet = ?doc\<rparr>"
  have e: "resolveDocumentSets 3 8 toy (example_config [?doc]) False (Some ''prod'') =
     ([GlobSync ''**'' ''/project''], Returned [?r])"
    by (simp add: resolveDocumentSets_def resolveDocumentSet_def example_config_def toy_def
        lookup_schema_def inherited_def object_prototype_names_def extending_def eval_nat_numeral Let_def callR_def returnR_def)
  note t = resolveDocumentSets_without_schema [of 3 8 toy "example_config [?doc]" "Some ''prod''"]
  from t [THEN conjunct1] e have 1: "\<not> schema_call (GlobSync ''**'' ''/project'')"
    by (simp only: fst_conv list.set ball_simps simp_thms)
  from t [THEN conjunct2, rule_format, of "[?r]" ?r] e have 2: "resolved_schema ?r = None"
    by (simp only: snd_conv list.set insertI1 simp_thms)
  from e 1 2 show ?thesis by (intro conjI)
qed

section \<open>Facts about the paths of a document set\<close>

lemma schema_files_Cons:
  "schema_files (r # rs) =
     (if truthy_str (ref_schema r) then [key_of (ref_schema r)] else []) @ schema_files rs"
  by (simp add: schema_files_def)



lemma chain_from_loop:
  "chain_from config start rs \<Longrightarrow> length rs \<le> fuel
     \<Longrightarrow> schemaPathsLoop fuel config start acc = Some (acc @ schema_files rs)"
proof (induction arbitrary: fuel acc rule: chain_from.induct)
  case (chain_end config)
  then show ?case by (simp add: schema_files_def)
next
  case (chain_step config r rs)
  from chain_step.prems obtain n where n: "fuel = Suc n" "length rs \<le> n"
    by (cases fuel) simp_all
  from chain_step.IH [OF n(2)] n(1) show ?case by (simp add: schema_files_Cons)
qed


section \<open>Document paths\<close>




section \<open>Facts about unknown names\<close>



lemma resolveSchema_unknown_not_Returned:
  "lookup_schema config nm = None \<Longrightarrow> snd (resolveSchema stack C config tag nm) \<noteq> Returned x"
  by (cases stack) simp_all




section \<open>References to schemas that do not exist\<close>




section \<open>A client schema on top of the default schema\<close>

text \<open>
  Claim C10. When the raw input has a truthy \<^verbatim>\<open>clientSchema\<close>, no (truthy) \<^verbatim>\<open>services\<close> and
  \<^verbatim>\<open>defaultSchema\<close> is true, \<open>getSchemasFromServices\<close> returns the mapping with the one key
  \<^verbatim>\<open>default\<close>, bound to \<^verbatim>\<open>{schema: clientSchema, clientSide: true, extends: "default"}\<close>:
  the synthesised default dependency is the first key when \<^verbatim>\<open>extends\<close> is computed and is
  then overwritten. The entry's \<^verbatim>\<open>extends\<close> names its own key, and every dependency of the
  mapping extends a dependency of the mapping: the chain has no end.
\<close>

theorem clientSchema_default_extends_itself:
  assumes "not_nullish raw"
    and "\<not> truthy (getProp raw ''services'')"
    and "truthy (getProp raw ''clientSchema'')"
  shows "getSchemasFromServices h raw defaultEndpoint True =
           Inr [(''default'',
                 JObject [(''schema'', getProp raw ''clientSchema''),
                          (''clientSide'', JBool True),
                          (''extends'', JString ''default'')])]
       \<and> (\<forall>mapping. getSchemasFromServices h raw defaultEndpoint True = Inr mapping \<longrightarrow>
             (\<forall>(key, dep) \<in> set mapping.
                \<exists>base. getProp dep ''extends'' = JString base \<and> truthy (JString base)
                     \<and> base \<in> fst ` set mapping))"
proof -
  from assms(1) have nn: "raw \<noteq> JUndefined" "raw \<noteq> JNull" by (simp_all add: not_nullish_def)
  from getSchemasFromServices_no_services [OF nn assms(2), of h defaultEndpoint True] assms(3)
  have e: "getSchemasFromServices h raw defaultEndpoint True =
           Inr [(''default'',
                 JObject [(''schema'', getProp raw ''clientSchema''),
                          (''clientSide'', JBool True),
                          (''extends'', JString ''default'')])]"
    by (auto simp: Let_def)
  then show ?thesis by simp
qed

text \<open>The theorem at \<^verbatim>\<open>{clientSchema: "client.graphql"}\<close>.\<close>

theorem clientSchema_default_extends_itself_witness:
  "getSchemasFromServices host_no_key
     (JObject [(''clientSchema'', JString ''client.graphql'')]) True True =
     Inr [(''default'',
           JObject [(''schema'', JString ''client.graphql''),
                    (''clientSide'', JBool True),
                    (''extends'', JString ''default'')])]
 \<and> (\<exists>base. getProp (JObject [(''schema'', JString ''client.graphql''),
                              (''clientSide'', JBool True),
                              (''extends'', JString ''default'')]) ''extends'' = JString base
         \<and> truthy (JString base)
         \<and> base \<in> fst ` set [(''default'',
                                  JObject [(''schema'', JString ''client.graphql''),
                                           (''clientSide'', JBool True),
                                           (''extends'', JString ''default'')])])"
proof -
  let ?raw = "JObject [(''clientSchema'', JString ''client.graphql'')]"
  let ?dep = "JObject [(''schema'', JString ''client.graphql''),
                       (''clientSide'', JBool True),
                       (''extends'', JString ''default'')]"
  have 1: "not_nullish ?raw" by (simp add: not_nullish_def)
  have 2: "\<not> truthy (getProp ?raw ''services'')" by simp
  have 3: "truthy (getProp ?raw ''clientSchema'')" by simp
  note t = clientSchema_default_extends_itself [OF 1 2 3, of host_no_key True]
  from t [THEN conjunct1]
  have e: "getSchemasFromServices host_no_key ?raw True True = Inr [(''default'', ?dep)]"
    by simp
  have m: "(''default'', ?dep) \<in> set [(''default'', ?dep)]" by simp
  from t [THEN conjunct2, rule_format, OF e m]
  have "\<exists>base. getProp ?dep ''extends'' = JString base \<and> truthy (JString base)
         \<and> base \<in> fst ` set [(''default'', ?dep)]"
    by (simp only: prod.case)
  with e show ?thesis by (intro conjI)
qed

end
